theory Spec2Isabelle
  imports Main "HOL-Library.AList"
begin

section \<open>Strings of the work plan\<close>

text \<open>
  A Python \<^verbatim>\<open>str\<close> is modelled as a \<^typ>\<open>string\<close> whose characters are the code
  points below 256.  In that range \<^verbatim>\<open>str.isspace\<close> holds for the twelve characters
  listed in \<open>is_space\<close>, the regular expression class \<^verbatim>\<open>\d\<close> and \<^verbatim>\<open>int()\<close>
  know the ten ASCII digits only, and \<^verbatim>\<open>str.lower\<close> maps the ASCII and the Latin-1
  capital letters.
\<close>

definition is_space :: "char \<Rightarrow> bool" where
  "is_space c \<longleftrightarrow> c \<in> set [CHR 0x09, CHR 0x0A, CHR 0x0B, CHR 0x0C, CHR 0x0D,
     CHR 0x1C, CHR 0x1D, CHR 0x1E, CHR 0x1F, CHR 0x20, CHR 0x85, CHR 0xA0]"

definition is_digit :: "char \<Rightarrow> bool" where
  "is_digit c \<longleftrightarrow> c \<in> set ''0123456789''"

text \<open>\<^verbatim>\<open>s.strip()\<close>\<close>

definition strip :: "string \<Rightarrow> string" where
  "strip s = rev (dropWhile is_space (rev (dropWhile is_space s)))"

text \<open>\<^verbatim>\<open>s.startswith(p)\<close>\<close>

fun startswith :: "string \<Rightarrow> string \<Rightarrow> bool" where
  "startswith [] s = True"
| "startswith (p # ps) [] = False"
| "startswith (p # ps) (c # cs) = (p = c \<and> startswith ps cs)"

text \<open>\<^verbatim>\<open>sub in s\<close>\<close>

fun contains :: "string \<Rightarrow> string \<Rightarrow> bool" where
  "contains sub [] = startswith sub []"
| "contains sub (c # cs) = (startswith sub (c # cs) \<or> contains sub cs)"

text \<open>\<^verbatim>\<open>s.split(sep)\<close> for a separator of one character; the result is never empty.\<close>

fun split_chr :: "char \<Rightarrow> string \<Rightarrow> string list" where
  "split_chr sep [] = [[]]"
| "split_chr sep (c # cs) =
     (if c = sep then [] # split_chr sep cs
      else (case split_chr sep cs of
              [] \<Rightarrow> [[c]]
            | x # xs \<Rightarrow> (c # x) # xs))"

text \<open>\<^verbatim>\<open>s.split(sep, 1)\<close>: at most one cut, at the first separator.\<close>

definition split_chr1 :: "char \<Rightarrow> string \<Rightarrow> string list" where
  "split_chr1 sep s =
     (if sep \<in> set s
      then [takeWhile (\<lambda>c. c \<noteq> sep) s, tl (dropWhile (\<lambda>c. c \<noteq> sep) s)]
      else [s])"

text \<open>\<^verbatim>\<open>sep.join(xs)\<close>\<close>

fun join :: "string \<Rightarrow> string list \<Rightarrow> string" where
  "join sep [] = []"
| "join sep [x] = x"
| "join sep (x # y # ys) = x @ sep @ join sep (y # ys)"

text \<open>\<^verbatim>\<open>s.lower()\<close>\<close>

definition upper_chars :: "char list" where
  "upper_chars = ''ABCDEFGHIJKLMNOPQRSTUVWXYZ'' @
     [CHR 0xC0, CHR 0xC1, CHR 0xC2, CHR 0xC3, CHR 0xC4, CHR 0xC5, CHR 0xC6, CHR 0xC7,
      CHR 0xC8, CHR 0xC9, CHR 0xCA, CHR 0xCB, CHR 0xCC, CHR 0xCD, CHR 0xCE, CHR 0xCF,
      CHR 0xD0, CHR 0xD1, CHR 0xD2, CHR 0xD3, CHR 0xD4, CHR 0xD5, CHR 0xD6,
      CHR 0xD8, CHR 0xD9, CHR 0xDA, CHR 0xDB, CHR 0xDC, CHR 0xDD, CHR 0xDE]"

definition lower_chars :: "char list" where
  "lower_chars = ''abcdefghijklmnopqrstuvwxyz'' @
     [CHR 0xE0, CHR 0xE1, CHR 0xE2, CHR 0xE3, CHR 0xE4, CHR 0xE5, CHR 0xE6, CHR 0xE7,
      CHR 0xE8, CHR 0xE9, CHR 0xEA, CHR 0xEB, CHR 0xEC, CHR 0xED, CHR 0xEE, CHR 0xEF,
      CHR 0xF0, CHR 0xF1, CHR 0xF2, CHR 0xF3, CHR 0xF4, CHR 0xF5, CHR 0xF6,
      CHR 0xF8, CHR 0xF9, CHR 0xFA, CHR 0xFB, CHR 0xFC, CHR 0xFD, CHR 0xFE]"

definition lower_chr :: "char \<Rightarrow> char" where
  "lower_chr c = (case map_of (zip upper_chars lower_chars) c of None \<Rightarrow> c | Some d \<Rightarrow> d)"

definition lower :: "string \<Rightarrow> string" where
  "lower s = map lower_chr s"

subsection \<open>Conversion between integers and decimal text\<close>

datatype error = ValueError | IndexError | AttributeError

definition digit_val :: "char \<Rightarrow> nat" where
  "digit_val c = length (takeWhile (\<lambda>d. d \<noteq> c) ''0123456789'')"

text \<open>
  The digits of \<^verbatim>\<open>int(s)\<close>: decimal digits, with single underscores allowed between
  two digits.  The flag says whether the character before was a digit.
\<close>

fun py_digits :: "bool \<Rightarrow> nat \<Rightarrow> string \<Rightarrow> nat option" where
  "py_digits prev acc [] = (if prev then Some acc else None)"
| "py_digits prev acc (c # cs) =
     (if is_digit c then py_digits True (10 * acc + digit_val c) cs
      else if c = CHR ''_'' \<and> prev then py_digits False acc cs
      else None)"

text \<open>
  \<^verbatim>\<open>int(s)\<close> in base ten: surrounding whitespace is dropped, one sign is allowed, and
  anything else raises \<^verbatim>\<open>ValueError\<close> (\<open>None\<close> here).  The interpreter's optional limit
  on the number of digits is not part of the model.
\<close>

definition py_int :: "string \<Rightarrow> int option" where
  "py_int s =
     (case strip s of
        [] \<Rightarrow> None
      | c # cs \<Rightarrow>
          if c = CHR ''-'' then map_option (\<lambda>n. - int n) (py_digits False 0 cs)
          else if c = CHR ''+'' then map_option int (py_digits False 0 cs)
          else map_option int (py_digits False 0 (c # cs)))"

definition digit_chr :: "nat \<Rightarrow> char" where
  "digit_chr n = ''0123456789'' ! (n mod 10)"

fun str_nat :: "nat \<Rightarrow> string" where
  "str_nat n = (if n < 10 then [digit_chr n] else str_nat (n div 10) @ [digit_chr (n mod 10)])"

declare str_nat.simps [simp del]

text \<open>\<^verbatim>\<open>str(n)\<close> for an integer\<close>

definition str_int :: "int \<Rightarrow> string" where
  "str_int i = (if i < 0 then CHR ''-'' # str_nat (nat (- i)) else str_nat (nat i))"

text \<open>The text a format string puts for an optional string: \<^verbatim>\<open>None\<close> prints as its name.\<close>

definition fmt_opt :: "string option \<Rightarrow> string" where
  "fmt_opt x = (case x of None \<Rightarrow> ''None'' | Some s \<Rightarrow> s)"

section \<open>The line patterns of \<^verbatim>\<open>WorkPlanParser\<close>\<close>

text \<open>
  Each pattern is anchored at both ends and is applied with \<^verbatim>\<open>re.match\<close>.  A digit run
  \<^verbatim>\<open>\d+\<close> is always followed by a character that is not a digit, so the greedy match is
  the only one: the matchers below read the line from left to right.
\<close>

text \<open>\<^verbatim>\<open>(.+)$\<close>: a non-empty rest without a line feed, the one before the end apart.\<close>

definition rest_group :: "string \<Rightarrow> string option" where
  "rest_group r =
     (let b = (if r \<noteq> [] \<and> last r = CHR 0x0A then butlast r else r)
      in if b \<noteq> [] \<and> CHR 0x0A \<notin> set b then Some b else None)"

text \<open>\<^verbatim>\<open>\d+\<close> at the start of a string: the digits and what follows them.\<close>

definition digits1 :: "string \<Rightarrow> (string \<times> string) option" where
  "digits1 s =
     (if takeWhile is_digit s = [] then None
      else Some (takeWhile is_digit s, dropWhile is_digit s))"

text \<open>A fixed text at the start of a string: what follows it.\<close>

definition lit :: "string \<Rightarrow> string \<Rightarrow> string option" where
  "lit p s = (if startswith p s then Some (drop (length p) s) else None)"

text \<open>\<^verbatim>\<open>EPIC_PATTERN = r'^## Epic (\d+): (.+)$'\<close>: the number and the title.\<close>

definition epic_match :: "string \<Rightarrow> (string \<times> string) option" where
  "epic_match line =
     Option.bind (lit ''## Epic '' line) (\<lambda>r0.
     Option.bind (digits1 r0) (\<lambda>(num, r1).
     Option.bind (lit '': '' r1) (\<lambda>r2.
     map_option (Pair num) (rest_group r2))))"

text \<open>
  \<^verbatim>\<open>FEATURE_PATTERN = r'^#### (\d+\.\d+) (.+)$'\<close>.  The parser reads the title only,
  here and in the three patterns that follow.
\<close>

definition feature_match :: "string \<Rightarrow> string option" where
  "feature_match line =
     Option.bind (lit ''#### '' line) (\<lambda>r0.
     Option.bind (digits1 r0) (\<lambda>(a, r1).
     Option.bind (lit ''.'' r1) (\<lambda>r2.
     Option.bind (digits1 r2) (\<lambda>(b, r3).
     Option.bind (lit '' '' r3) rest_group))))"

text \<open>\<^verbatim>\<open>TASK_PATTERN = r'^\*\*(\d+\.\d+\.\d+)\*\* (.+)$'\<close>\<close>

definition task_match :: "string \<Rightarrow> string option" where
  "task_match line =
     Option.bind (lit ''**'' line) (\<lambda>r0.
     Option.bind (digits1 r0) (\<lambda>(a, r1).
     Option.bind (lit ''.'' r1) (\<lambda>r2.
     Option.bind (digits1 r2) (\<lambda>(b, r3).
     Option.bind (lit ''.'' r3) (\<lambda>r4.
     Option.bind (digits1 r4) (\<lambda>(c, r5).
     Option.bind (lit ''** '' r5) rest_group))))))"

text \<open>
  \<^verbatim>\<open>CHORE_PATTERN = r'^\*\*(\d+\.C\.\d+)\*\* (.+)$'\<close> and
  \<^verbatim>\<open>BUG_PATTERN = r'^\*\*(\d+\.B\.\d+)\*\* (.+)$'\<close> differ in the letter only.
\<close>

definition lettered_match :: "string \<Rightarrow> string \<Rightarrow> string option" where
  "lettered_match letter line =
     Option.bind (lit ''**'' line) (\<lambda>r0.
     Option.bind (digits1 r0) (\<lambda>(a, r1).
     Option.bind (lit (''.'' @ letter @ ''.'') r1) (\<lambda>r2.
     Option.bind (digits1 r2) (\<lambda>(b, r3).
     Option.bind (lit ''** '' r3) rest_group))))"

definition chore_match :: "string \<Rightarrow> string option" where
  "chore_match = lettered_match ''C''"

definition bug_match :: "string \<Rightarrow> string option" where
  "bug_match = lettered_match ''B''"

section \<open>Issues and the parser\<close>

text \<open>Class \<^verbatim>\<open>Issue\<close>.  The kind is free text: a \<^verbatim>\<open>Type:\<close> attribute may name any.\<close>

record issue =
  title :: string
  issue_type :: string
  priority :: int
  description :: string
  parent :: "string option"
  epic_id :: "string option"
  beads_id :: "string option"

text \<open>\<^verbatim>\<open>Issue.__init__\<close>: \<^verbatim>\<open>beads_id\<close> starts unset.\<close>

definition Issue :: "string \<Rightarrow> string \<Rightarrow> int \<Rightarrow> string \<Rightarrow> string option \<Rightarrow> string option \<Rightarrow> issue" where
  "Issue t k p d par eid =
     \<lparr>title = t, issue_type = k, priority = p, description = d, parent = par,
      epic_id = eid, beads_id = None\<rparr>"

text \<open>
  The parser object.  Of its three attributes \<^verbatim>\<open>parse\<close> reads the path only to get the
  text, which is an argument here, never touches \<^verbatim>\<open>epic_map\<close>, and appends to
  \<^verbatim>\<open>issues\<close>, which \<^verbatim>\<open>__init__\<close> sets to the empty list.
\<close>

record parser =
  issues :: "issue list"

definition new_parser :: parser where
  "new_parser = \<lparr>issues = []\<rparr>"

text \<open>
  The local variables of \<^verbatim>\<open>parse\<close> that the loop reads, with the object.
  (\<^verbatim>\<open>current_epic\<close> and \<^verbatim>\<open>current_feature_desc\<close> are written and never read.)
\<close>

record scan =
  current_epic_num :: "string option"
  current_section :: "string option"
  self :: parser

definition append_issue :: "issue \<Rightarrow> scan \<Rightarrow> scan" where
  "append_issue x st = st\<lparr>self := (self st)\<lparr>issues := issues (self st) @ [x]\<rparr>\<rparr>"

text \<open>\<^verbatim>\<open>current_section and name in current_section\<close>\<close>

definition in_section :: "string \<Rightarrow> scan \<Rightarrow> bool" where
  "in_section name st =
     (case current_section st of None \<Rightarrow> False | Some s \<Rightarrow> s \<noteq> [] \<and> contains name s)"

text \<open>
  The description of an epic.  The outer loop runs from the line after the header to the
  first line that starts with the marker, the inner loop takes the lines after the marker
  up to an empty line or a line that starts with \<^verbatim>\<open>###\<close>.
\<close>

fun collect_desc :: "string list \<Rightarrow> string list" where
  "collect_desc [] = []"
| "collect_desc (l # ls) =
     (if strip l = [] then []
      else if \<not> startswith ''###'' (strip l) then strip l # collect_desc ls
      else [])"

fun find_desc :: "string list \<Rightarrow> string list" where
  "find_desc [] = []"
| "find_desc (l # ls) =
     (if startswith ''**Description:**'' (strip l) then collect_desc ls else find_desc ls)"

text \<open>\<^verbatim>\<open>xs[1]\<close> of a list, with its \<^verbatim>\<open>IndexError\<close>.\<close>

definition second :: "'a list \<Rightarrow> error + 'a" where
  "second xs = (case xs of _ # x # _ \<Rightarrow> Inr x | _ \<Rightarrow> Inl IndexError)"

text \<open>
  \<^verbatim>\<open>int(next_line.split(":")[1].split("(")[0].strip())\<close>.  A split is never empty, so
  its element 0 is its head.
\<close>

definition priority_value :: "string \<Rightarrow> error + int" where
  "priority_value next_line =
     (case second (split_chr CHR '':'' next_line) of
        Inl e \<Rightarrow> Inl e
      | Inr v \<Rightarrow>
          (case py_int (strip (hd (split_chr CHR ''('' v))) of
             None \<Rightarrow> Inl ValueError
           | Some p \<Rightarrow> Inr p))"

text \<open>
  The look-ahead after a feature line: the lines below it, up to an empty line, with the
  priority, the kind and the description lines found so far.
\<close>

fun scan_attrs :: "string list \<Rightarrow> int \<Rightarrow> string \<Rightarrow> string list \<Rightarrow> error + (int \<times> string \<times> string list)" where
  "scan_attrs [] p k ds = Inr (p, k, ds)"
| "scan_attrs (l # ls) p k ds =
     (let next_line = strip l in
      if next_line = [] then Inr (p, k, ds)
      else if startswith ''- Priority:'' next_line then
        (case priority_value next_line of
           Inl e \<Rightarrow> Inl e
         | Inr p' \<Rightarrow> scan_attrs ls p' k ds)
      else if startswith ''- Type:'' next_line then
        (case second (split_chr CHR '':'' next_line) of
           Inl e \<Rightarrow> Inl e
         | Inr v \<Rightarrow> scan_attrs ls p (strip v) ds)
      else if startswith ''- Description:'' next_line then
        (case second (split_chr1 CHR '':'' next_line) of
           Inl e \<Rightarrow> Inl e
         | Inr v \<Rightarrow> scan_attrs ls p k (ds @ [strip v]))
      else if startswith ''**'' next_line \<or> startswith ''###'' next_line then Inr (p, k, ds)
      else scan_attrs ls p k ds)"

text \<open>
  One turn of the \<^verbatim>\<open>while\<close> loop, at a line and the lines after it.  Every branch
  moves on by one line.
\<close>

definition epic_ref :: "scan \<Rightarrow> string option" where
  "epic_ref st = Some (''epic-'' @ fmt_opt (current_epic_num st))"

definition parse_line :: "scan \<Rightarrow> string \<Rightarrow> string list \<Rightarrow> error + scan" where
  "parse_line st raw rest =
     (let line = strip raw in
      (case epic_match line of
         Some (epic_num, epic_title) \<Rightarrow>
           Inr (append_issue
                  (Issue epic_title ''epic'' 1 (join '' '' (find_desc rest)) None (Some epic_num))
                  (st\<lparr>current_epic_num := Some epic_num\<rparr>))
       | None \<Rightarrow>
      (if startswith ''### '' line then
         Inr (st\<lparr>current_section := Some (lower (strip (drop 4 line)))\<rparr>)
       else
      (case (if in_section ''features'' st then feature_match line else None) of
         Some feature_title \<Rightarrow>
           (case scan_attrs rest 2 ''feature'' [] of
              Inl e \<Rightarrow> Inl e
            | Inr (p, k, ds) \<Rightarrow>
                Inr (append_issue
                       (Issue feature_title k p (join '' '' ds) (epic_ref st) None) st))
       | None \<Rightarrow>
      (case (if in_section ''tasks'' st then task_match line else None) of
         Some task_title \<Rightarrow>
           Inr (append_issue (Issue task_title ''task'' 2 [] (epic_ref st) None) st)
       | None \<Rightarrow>
      (case (if in_section ''chores'' st then chore_match line else None) of
         Some chore_title \<Rightarrow>
           Inr (append_issue (Issue chore_title ''chore'' 3 [] (epic_ref st) None) st)
       | None \<Rightarrow>
      (case (if in_section ''potential bugs'' st then bug_match line else None) of
         Some bug_title \<Rightarrow>
           Inr (append_issue (Issue bug_title ''bug'' 4 [] (epic_ref st) None) st)
       | None \<Rightarrow> Inr st)))))))"

text \<open>The loop over the lines.\<close>

fun parse_loop :: "scan \<Rightarrow> string list \<Rightarrow> error + scan" where
  "parse_loop st [] = Inr st"
| "parse_loop st (l # ls) =
     (case parse_line st l ls of
        Inl e \<Rightarrow> Inl e
      | Inr st' \<Rightarrow> parse_loop st' ls)"

text \<open>
  \<^verbatim>\<open>WorkPlanParser.parse\<close> on the text of the file: the list it returns is the object's
  own list, as it is at the return, and the object after the call comes with it.  An
  exception ends the call; what the object then holds is not kept.
\<close>

definition start :: "parser \<Rightarrow> scan" where
  "start slf = \<lparr>current_epic_num = None, current_section = None, self = slf\<rparr>"

definition parse :: "parser \<Rightarrow> string \<Rightarrow> error + (issue list \<times> parser)" where
  "parse slf content =
     (case parse_loop (start slf) (split_chr CHR 0x0A content) of
        Inl e \<Rightarrow> Inl e
      | Inr st \<Rightarrow> Inr (issues (self st), self st))"

section \<open>The store and the three passes of \<^verbatim>\<open>generate_issues\<close>\<close>

text \<open>
  The store is reached through \<^verbatim>\<open>subprocess.run(cmd, shell=True, capture_output=True,
  text=True, check=True)\<close> only.  A call either completes with its standard output or
  raises \<^verbatim>\<open>CalledProcessError\<close> with its standard error.
\<close>

datatype proc_out = Completed string | CalledProcessError string

text \<open>
  What the program does to the world outside: the commands it runs and the pauses it
  makes (\<^verbatim>\<open>time.sleep\<close>, in milliseconds), in order.
\<close>

datatype event = Ran string | Slept nat

text \<open>
  \<^verbatim>\<open>json.loads(result.stdout)\<close> followed by \<^verbatim>\<open>output.get("id", "")\<close>.  The output is
  no JSON text; or it is JSON but no object (a list, a number, a string, \<^verbatim>\<open>true\<close>,
  \<^verbatim>\<open>false\<close> or \<^verbatim>\<open>null\<close>), which has no method \<^verbatim>\<open>get\<close>; or it is an object, whose
  identifier is taken to be text, the empty text when the key is missing.
\<close>

datatype json_out = JSONDecodeError | NotObject | JsonId string

text \<open>
  The environment of a run, which the program does not define: how the store answers a
  command after the events so far, how its output decodes, and the interpreter's
  \<^verbatim>\<open>hash\<close> of a string.
\<close>

record host =
  run :: "event list \<Rightarrow> string \<Rightarrow> proc_out"
  json_id :: "string \<Rightarrow> json_out"
  hash :: "string \<Rightarrow> int"

text \<open>\<^verbatim>\<open>" " in str(arg)\<close> decides the quoting of an argument in \<^verbatim>\<open>Issue.to_command\<close>.\<close>

definition quote_arg :: "string \<Rightarrow> string" where
  "quote_arg a = (if CHR '' '' \<in> set a then ''\"'' @ a @ ''\"'' else a)"

definition to_command :: "issue \<Rightarrow> string \<Rightarrow> string" where
  "to_command it bd_path =
     join '' '' (map quote_arg
       ([bd_path, ''create'', title it, ''-t'', issue_type it, ''-p'', str_int (priority it)]
        @ (if description it \<noteq> [] then [''-d'', description it] else [])
        @ [''--json'']))"

text \<open>The format \<^verbatim>\<open>:05x\<close> of a number below \<open>16 ^ 5\<close>.\<close>

definition hex5 :: "nat \<Rightarrow> string" where
  "hex5 n = map (\<lambda>k. ''0123456789abcdef'' ! ((n div 16 ^ k) mod 16)) [4, 3, 2, 1, 0]"

text \<open>
  \<^verbatim>\<open>execute_command\<close>: the pair it returns and the events after it.  The function
  catches \<^verbatim>\<open>CalledProcessError\<close> and \<^verbatim>\<open>JSONDecodeError\<close> only: on an output that is
  JSON but no object, \<^verbatim>\<open>output.get\<close> raises \<^verbatim>\<open>AttributeError\<close>, which leaves the
  function and ends the run.
\<close>

definition execute_command :: "host \<Rightarrow> event list \<Rightarrow> string \<Rightarrow> bool \<Rightarrow> error + ((bool \<times> string) \<times> event list)" where
  "execute_command h log cmd dry_run =
     (if dry_run then Inr ((True, ''bd-'' @ hex5 (nat (\<bar>hash h cmd\<bar> mod 100000))), log)
      else
        (case run h log cmd of
           CalledProcessError err \<Rightarrow> Inr ((False, []), log @ [Ran cmd])
         | Completed out \<Rightarrow>
             (case json_id h out of
                JSONDecodeError \<Rightarrow> Inr ((False, []), log @ [Ran cmd])
              | NotObject \<Rightarrow> Inl AttributeError
              | JsonId i \<Rightarrow> Inr ((True, i), log @ [Ran cmd]))))"

text \<open>The key of a group in the lookup table: \<^verbatim>\<open>f"epic-{issue.epic_id}"\<close>.\<close>

definition epic_key :: "issue \<Rightarrow> string" where
  "epic_key it = ''epic-'' @ fmt_opt (epic_id it)"

text \<open>
  First pass: the epics, in order.  The items come back with \<^verbatim>\<open>beads_id\<close> set where the
  store created them.  An exception of \<^verbatim>\<open>execute_command\<close> ends the pass and the run.
\<close>

fun create_epics :: "host \<Rightarrow> string \<Rightarrow> bool \<Rightarrow> issue list \<Rightarrow> (string \<rightharpoonup> string) \<Rightarrow> event list
    \<Rightarrow> error + (issue list \<times> (string \<rightharpoonup> string) \<times> event list)" where
  "create_epics h bd dry [] em log = Inr ([], em, log)"
| "create_epics h bd dry (it # its) em log =
     (if issue_type it = ''epic'' then
        (case execute_command h log (to_command it bd) dry of
           Inl e \<Rightarrow> Inl e
         | Inr ((success, issue_id), log') \<Rightarrow>
             if success then
               (case create_epics h bd dry its (em(epic_key it \<mapsto> issue_id)) log' of
                  Inl e \<Rightarrow> Inl e
                | Inr (its', r) \<Rightarrow> Inr (it\<lparr>beads_id := Some issue_id\<rparr> # its', r))
             else
               (case create_epics h bd dry its em log' of
                  Inl e \<Rightarrow> Inl e
                | Inr (its', r) \<Rightarrow> Inr (it # its', r)))
      else
        (case create_epics h bd dry its em log of
           Inl e \<Rightarrow> Inl e
         | Inr (its', r) \<Rightarrow> Inr (it # its', r)))"

text \<open>\<^verbatim>\<open>epic_map.get(issue.parent, "") if issue.parent else ""\<close>\<close>

definition resolve_parent :: "(string \<rightharpoonup> string) \<Rightarrow> issue \<Rightarrow> string" where
  "resolve_parent em it =
     (case parent it of
        None \<Rightarrow> []
      | Some p \<Rightarrow> if p = [] then [] else (case em p of None \<Rightarrow> [] | Some v \<Rightarrow> v))"

text \<open>
  Second pass: every other item, in order.  \<^verbatim>\<open>parent_map\<close> is a dictionary from the
  child's identifier to the parent's; it keeps the order of first insertion, as the
  association list does under \<^const>\<open>AList.update\<close>.
\<close>

fun create_children :: "host \<Rightarrow> string \<Rightarrow> bool \<Rightarrow> (string \<rightharpoonup> string) \<Rightarrow> issue list
    \<Rightarrow> (string \<times> string) list \<Rightarrow> event list
    \<Rightarrow> error + (issue list \<times> (string \<times> string) list \<times> event list)" where
  "create_children h bd dry em [] pm log = Inr ([], pm, log)"
| "create_children h bd dry em (it # its) pm log =
     (if issue_type it \<noteq> ''epic'' then
        (let parent_id = resolve_parent em it in
         case execute_command h log (to_command it bd) dry of
           Inl e \<Rightarrow> Inl e
         | Inr ((success, issue_id), log') \<Rightarrow>
             if success then
               (case create_children h bd dry em its
                       (if parent_id \<noteq> [] then AList.update issue_id parent_id pm else pm) log' of
                  Inl e \<Rightarrow> Inl e
                | Inr (its', r) \<Rightarrow> Inr (it\<lparr>beads_id := Some issue_id\<rparr> # its', r))
             else
               (case create_children h bd dry em its pm log' of
                  Inl e \<Rightarrow> Inl e
                | Inr (its', r) \<Rightarrow> Inr (it # its', r)))
      else
        (case create_children h bd dry em its pm log of
           Inl e \<Rightarrow> Inl e
         | Inr (its', r) \<Rightarrow> Inr (it # its', r)))"

text \<open>\<^verbatim>\<open>f'{bd_path} dep add "{child_id}" "{parent_id}"'\<close>\<close>

definition dep_cmd :: "string \<Rightarrow> string \<Rightarrow> string \<Rightarrow> string" where
  "dep_cmd bd child_id parent_id =
     bd @ '' dep add \"'' @ child_id @ ''\" \"'' @ parent_id @ ''\"''"

text \<open>
  The inner loop of the third pass, \<^verbatim>\<open>for retry in range(3)\<close>, over the values of
  \<^verbatim>\<open>retry\<close> still to come.  It ends by a \<^verbatim>\<open>break\<close> after a success or after a
  failure that is counted, or when the range is used up.
\<close>

datatype link_end = Linked | Failed | Used_up

fun try_link :: "host \<Rightarrow> string \<Rightarrow> nat list \<Rightarrow> event list \<Rightarrow> link_end \<times> event list" where
  "try_link h cmd [] log = (Used_up, log)"
| "try_link h cmd (retry # later) log =
     (case run h log cmd of
        Completed out \<Rightarrow> (Linked, log @ [Ran cmd, Slept 50])
      | CalledProcessError err \<Rightarrow>
          if retry < 2 \<and> contains ''database is locked'' err
          then try_link h cmd later (log @ [Ran cmd, Slept (500 * (retry + 1))])
          else (Failed, log @ [Ran cmd]))"

text \<open>The outer loop of the third pass, with the two counters.\<close>

fun link_all :: "host \<Rightarrow> string \<Rightarrow> (string \<times> string) list \<Rightarrow> nat \<Rightarrow> nat \<Rightarrow> event list
    \<Rightarrow> nat \<times> nat \<times> event list" where
  "link_all h bd [] success_count failed_count log = (success_count, failed_count, log)"
| "link_all h bd ((child_id, parent_id) # later) success_count failed_count log =
     (case try_link h (dep_cmd bd child_id parent_id) [0, 1, 2] log of
        (Linked, log') \<Rightarrow> link_all h bd later (success_count + 1) failed_count log'
      | (Failed, log') \<Rightarrow> link_all h bd later success_count (failed_count + 1) log'
      | (Used_up, log') \<Rightarrow> link_all h bd later success_count failed_count log')"

text \<open>
  \<^verbatim>\<open>generate_issues\<close> without an output file: the parse, then the three passes.  What
  it prints is left out; the record holds the variables at the end and the events.  An
  exception of the parse or of a pass ends the run.
\<close>

record outcome =
  items :: "issue list"
  epic_map :: "string \<rightharpoonup> string"
  parent_map :: "(string \<times> string) list"
  success_count :: nat
  failed_count :: nat
  events :: "event list"

definition generate_issues :: "host \<Rightarrow> string \<Rightarrow> string \<Rightarrow> bool \<Rightarrow> error + outcome" where
  "generate_issues h content bd dry =
     (case parse new_parser content of
        Inl e \<Rightarrow> Inl e
      | Inr (parsed, slf) \<Rightarrow>
          (case create_epics h bd dry parsed Map.empty [] of
             Inl e \<Rightarrow> Inl e
           | Inr (its1, em, log1) \<Rightarrow>
               (case create_children h bd dry em its1 [] log1 of
                  Inl e \<Rightarrow> Inl e
                | Inr (its2, pm, log2) \<Rightarrow>
                    (case (if pm \<noteq> [] \<and> \<not> dry then link_all h bd pm 0 0 log2
                           else (0, 0, log2)) of
                       (sc, fc, log3) \<Rightarrow>
                         Inr \<lparr>items = its2, epic_map = em, parent_map = pm,
                              success_count = sc, failed_count = fc, events = log3\<rparr>))))"

section \<open>Notions for the properties\<close>

text \<open>
  The loop run over the lines \<open>pre\<close> of a document \<open>pre @ suf\<close>: the state in which it
  reaches the first line of \<open>suf\<close>.
\<close>

fun loop_upto :: "scan \<Rightarrow> string list \<Rightarrow> string list \<Rightarrow> error + scan" where
  "loop_upto st [] suf = Inr st"
| "loop_upto st (l # pre) suf =
     (case parse_line st l (pre @ suf) of
        Inl e \<Rightarrow> Inl e
      | Inr st' \<Rightarrow> loop_upto st' pre suf)"

text \<open>The items that one turn of the loop appends.\<close>

definition yield :: "scan \<Rightarrow> string \<Rightarrow> string list \<Rightarrow> issue list" where
  "yield st l rest =
     (case parse_line st l rest of
        Inl e \<Rightarrow> []
      | Inr st' \<Rightarrow> drop (length (issues (self st))) (issues (self st')))"

text \<open>
  The items that line \<open>n\<close> of a document yields (lines are counted from 0) when a new
  parser reads the document.
\<close>

definition line_items :: "string list \<Rightarrow> nat \<Rightarrow> issue list" where
  "line_items lines n =
     (if n < length lines then
        (case loop_upto (start new_parser) (take n lines) (drop n lines) of
           Inl e \<Rightarrow> []
         | Inr st \<Rightarrow> yield st (lines ! n) (drop (Suc n) lines))
      else [])"

text \<open>A state of the loop whose parser object held the items \<open>acc\<close> before the call.\<close>

definition after :: "issue list \<Rightarrow> scan \<Rightarrow> scan" where
  "after acc st = st\<lparr>self := (self st)\<lparr>issues := acc @ issues (self st)\<rparr>\<rparr>"

text \<open>The number of a group header line, and the number of the last header among lines.\<close>

definition header_num :: "string \<Rightarrow> string option" where
  "header_num l = map_option fst (epic_match (strip l))"

fun nearest_header :: "string list \<Rightarrow> string option" where
  "nearest_header [] = None"
| "nearest_header (l # ls) =
     (case nearest_header ls of
        Some k \<Rightarrow> Some k
      | None \<Rightarrow> header_num l)"

text \<open>
  The attribute block below a feature line: the lines that the look-ahead reads as
  attributes or passes over, up to an empty line or a line that starts with \<^verbatim>\<open>**\<close> or
  \<^verbatim>\<open>###\<close>.
\<close>

definition attr_block :: "string list \<Rightarrow> string list" where
  "attr_block rest =
     takeWhile (\<lambda>l. strip l \<noteq> [] \<and> \<not> startswith ''**'' (strip l) \<and> \<not> startswith ''###'' (strip l))
       rest"

definition priority_lines :: "string list \<Rightarrow> string list" where
  "priority_lines rest = filter (\<lambda>l. startswith ''- Priority:'' (strip l)) (attr_block rest)"



text \<open>
  The two kinds of failure that the third pass tells apart: the standard error of the
  failed command holds the text \<^verbatim>\<open>database is locked\<close>, or it does not.
\<close>

definition contended :: "host \<Rightarrow> event list \<Rightarrow> string \<Rightarrow> bool" where
  "contended h log cmd =
     (case run h log cmd of
        Completed out \<Rightarrow> False
      | CalledProcessError err \<Rightarrow> contains ''database is locked'' err)"

definition refused :: "host \<Rightarrow> event list \<Rightarrow> string \<Rightarrow> bool" where
  "refused h log cmd =
     (case run h log cmd of
        Completed out \<Rightarrow> False
      | CalledProcessError err \<Rightarrow> \<not> contains ''database is locked'' err)"

section \<open>Example documents and stores\<close>

text \<open>Scenario A and Scenario B of the specification, line by line.\<close>

definition scenario_a :: "string list" where
  "scenario_a = [''## Epic 1: Infra'', ''### Features'', ''#### 1.1 user-configurable retries'']"

definition scenario_a_items :: "issue list" where
  "scenario_a_items =
     [Issue ''Infra'' ''epic'' 1 [] None (Some ''1''),
      Issue ''user-configurable retries'' ''feature'' 2 [] (Some ''epic-1'') None]"





text \<open>A feature line with no group header above it.\<close>

definition orphan_feature :: "string list" where
  "orphan_feature = [''### Features'', ''#### 1.1 Foo'']"

definition orphan_item :: issue where
  "orphan_item = Issue ''Foo'' ''feature'' 2 [] (Some ''epic-None'') None"

text \<open>A feature whose \<^verbatim>\<open>Type:\<close> attribute names a kind.\<close>

definition typed_feature :: "string \<Rightarrow> string list" where
  "typed_feature k = [''## Epic 1: Infra'', ''### Features'', ''#### 1.1 Foo'', ''- Type: '' @ k]"

text \<open>One line of each kind, none with a priority attribute.\<close>

definition kinds_doc :: "string list" where
  "kinds_doc = [''## Epic 1: Infra'', ''### Tasks'', ''**1.1.1** Write the parser'',
     ''### Chores'', ''**1.C.1** Update the notes'', ''### Potential Bugs'', ''**1.B.1** Lock contention'',
     ''### Features'', ''#### 1.1 Retries'', ''- Type: feature'']"

text \<open>Two groups, of which only the second has a description.\<close>

definition two_groups :: "string list" where
  "two_groups = [''## Epic 1: First'', '''', ''## Epic 2: Second'', ''**Description:**'',
     ''Only the second group is described.'']"

text \<open>Two group headers with the same number; the first group has a feature of kind epic.\<close>

definition same_number_groups :: "string list" where
  "same_number_groups = [''## Epic 1: First'', ''### Features'', ''#### 1.1 Foo'', ''- Type: epic'',
     ''#### 1.2 Bar'', ''## Epic 1: Second'']"

text \<open>
  A store for the examples.  It rejects the commands that \<open>refuse\<close> picks, with the given
  standard error, and answers every other command with a JSON object that holds a new
  identifier, which \<open>json_id_field\<close> reads back.  Of the other outputs \<open>json_id_field\<close>
  knows the empty JSON list, which is no object.
\<close>

definition json_id_field :: "string \<Rightarrow> json_out" where
  "json_id_field out =
     (if startswith ''{\"id\": \"'' out
      then JsonId (takeWhile (\<lambda>c. c \<noteq> CHR 0x22) (drop 8 out))
      else if out = ''[]'' then NotObject
      else JSONDecodeError)"

definition test_store :: "(string \<Rightarrow> bool) \<Rightarrow> string \<Rightarrow> host" where
  "test_store refuse err =
     \<lparr>run = (\<lambda>log cmd. if refuse cmd then CalledProcessError err
                        else Completed (''{\"id\": \"bd-'' @ str_nat (length log) @ ''\"}'')),
      json_id = json_id_field,
      hash = (\<lambda>cmd. 0)\<rparr>"

definition accepting_host :: host where
  "accepting_host = test_store (\<lambda>cmd. False) []"

definition locked_host :: host where
  "locked_host = test_store (\<lambda>cmd. True) ''Error: database is locked''"

definition refusing_host :: host where
  "refusing_host = test_store (\<lambda>cmd. True) ''Error: no such issue''"

definition epic_refusing_host :: host where
  "epic_refusing_host = test_store (contains ''-t epic'') ''Error: rejected''"

definition first_refusing_host :: host where
  "first_refusing_host = test_store (contains ''First'') ''Error: rejected''"

text \<open>A store that answers every command with the empty JSON list.\<close>

definition list_replying_host :: host where
  "list_replying_host = \<lparr>run = (\<lambda>log cmd. Completed ''[]''), json_id = json_id_field, hash = (\<lambda>cmd. 0)\<rparr>"

section \<open>Facts about the strings and the patterns\<close>

lemma startswith_iff: "startswith p s \<longleftrightarrow> (\<exists>r. s = p @ r)"
  by (induction p s rule: startswith.induct) auto

lemma lit_Some: "lit p s = Some r \<longleftrightarrow> s = p @ r"
  by (auto simp: lit_def startswith_iff)

lemma digits1_hd:
  "digits1 s = Some (a, r) \<Longrightarrow> \<exists>c cs. s = c # cs \<and> is_digit c"
  by (cases s) (auto simp: digits1_def split: if_splits)

lemma not_digit_chars [simp]:
  "\<not> is_digit CHR ''C''" "\<not> is_digit CHR ''B''" "\<not> is_digit CHR ''#''" "\<not> is_digit CHR ''*''"
  by (simp_all add: is_digit_def)

lemma task_shape:
  "task_match x = Some t \<Longrightarrow> \<exists>r0 a d r. x = ''**'' @ r0 \<and> digits1 r0 = Some (a, CHR ''.'' # d # r) \<and> is_digit d"
  unfolding task_match_def
  apply (clarsimp simp: lit_Some split: Option.bind_splits prod.splits)
  subgoal for a b c d e f r
    using digits1_hd [of c d "CHR ''.'' # e"] by auto
  done

lemma lettered_shape:
  "lettered_match [k] x = Some t \<Longrightarrow> \<exists>r0 a r. x = ''**'' @ r0 \<and> digits1 r0 = Some (a, CHR ''.'' # k # r)"
  unfolding lettered_match_def
  by (clarsimp simp: lit_Some split: Option.bind_splits prod.splits)

lemma feature_shape: "feature_match x = Some t \<Longrightarrow> \<exists>r. x = ''#### '' @ r"
  unfolding feature_match_def
  by (clarsimp simp: lit_Some split: Option.bind_splits prod.splits)

lemma epic_shape: "epic_match x = Some t \<Longrightarrow> \<exists>r. x = ''## Epic '' @ r"
  unfolding epic_match_def
  by (clarsimp simp: lit_Some split: Option.bind_splits prod.splits)

lemma starred_not_hash:
  "epic_match (''**'' @ r) = None" "\<not> startswith ''### '' (''**'' @ r)" "feature_match (''**'' @ r) = None"
  by (simp_all add: epic_match_def feature_match_def lit_def)

lemma task_not_lettered:
  assumes "digits1 r0 = Some (a, CHR ''.'' # d # r)" "is_digit d" "\<not> is_digit k"
  shows "lettered_match [k] (''**'' @ r0) = None"
  using assms by (auto simp: lettered_match_def lit_def split: Option.bind_splits)

lemma lettered_not_task:
  assumes "digits1 r0 = Some (a, CHR ''.'' # k # r)" "\<not> is_digit k"
  shows "task_match (''**'' @ r0) = None"
  using assms by (auto simp: task_match_def lit_def digits1_def split: Option.bind_splits)

lemma lettered_not_lettered:
  assumes "digits1 r0 = Some (a, CHR ''.'' # k # r)" "k \<noteq> k'"
  shows "lettered_match [k'] (''**'' @ r0) = None"
  using assms by (auto simp: lettered_match_def lit_def split: Option.bind_splits)

lemma task_line_only:
  assumes "task_match x = Some t"
  shows "epic_match x = None \<and> \<not> startswith ''### '' x \<and> feature_match x = None \<and>
    chore_match x = None \<and> bug_match x = None"
proof -
  from task_shape [OF assms] obtain r0 a d r
    where x: "x = ''**'' @ r0" and d: "digits1 r0 = Some (a, CHR ''.'' # d # r)" "is_digit d"
    by blast
  show ?thesis
    unfolding x chore_match_def bug_match_def
    using starred_not_hash [of r0] task_not_lettered [OF d] by simp
qed

lemma chore_line_only:
  assumes "chore_match x = Some t"
  shows "epic_match x = None \<and> \<not> startswith ''### '' x \<and> feature_match x = None \<and>
    task_match x = None \<and> bug_match x = None"
proof -
  from lettered_shape [of "CHR ''C''" x t] assms obtain r0 a r
    where x: "x = ''**'' @ r0" and d: "digits1 r0 = Some (a, CHR ''.'' # CHR ''C'' # r)"
    unfolding chore_match_def by blast
  show ?thesis
    unfolding x bug_match_def
    using starred_not_hash [of r0] lettered_not_task [OF d] lettered_not_lettered [OF d, of "CHR ''B''"]
    by simp
qed

lemma bug_line_only:
  assumes "bug_match x = Some t"
  shows "epic_match x = None \<and> \<not> startswith ''### '' x \<and> feature_match x = None \<and>
    task_match x = None \<and> chore_match x = None"
proof -
  from lettered_shape [of "CHR ''B''" x t] assms obtain r0 a r
    where x: "x = ''**'' @ r0" and d: "digits1 r0 = Some (a, CHR ''.'' # CHR ''B'' # r)"
    unfolding bug_match_def by blast
  show ?thesis
    unfolding x chore_match_def
    using starred_not_hash [of r0] lettered_not_task [OF d] lettered_not_lettered [OF d, of "CHR ''C''"]
    by simp
qed

lemma feature_line_only:
  assumes "feature_match x = Some t"
  shows "epic_match x = None \<and> \<not> startswith ''### '' x \<and> 
    task_match x = None \<and> chore_match x = None \<and> bug_match x = None"
proof -
  from feature_shape [OF assms] obtain r where x: "x = ''#### '' @ r" by blast
  show ?thesis
    unfolding x 
    by (simp add: epic_match_def task_match_def chore_match_def bug_match_def lettered_match_def lit_def)
qed

lemma epic_line_only:
  assumes "epic_match x = Some t"
  shows  "\<not> startswith ''### '' x \<and> feature_match x = None \<and>
    task_match x = None \<and> chore_match x = None \<and> bug_match x = None"
proof -
  from epic_shape [OF assms] obtain r where x: "x = ''## Epic '' @ r" by blast
  show ?thesis
    unfolding x 
    by (simp add: feature_match_def task_match_def chore_match_def bug_match_def lettered_match_def lit_def)
qed


lemma append_issue_simps [simp]:
  "issues (self (append_issue x st)) = issues (self st) @ [x]"
  "current_epic_num (append_issue x st) = current_epic_num st"
  "current_section (append_issue x st) = current_section st"
  by (simp_all add: append_issue_def)

lemma Issue_simps [simp]:
  "title (Issue t k p d par eid) = t"
  "issue_type (Issue t k p d par eid) = k"
  "priority (Issue t k p d par eid) = p"
  "description (Issue t k p d par eid) = d"
  "parent (Issue t k p d par eid) = par"
  "epic_id (Issue t k p d par eid) = eid"
  "beads_id (Issue t k p d par eid) = None"
  by (simp_all add: Issue_def)

lemma in_section_update [simp]:
  "in_section name (st\<lparr>current_epic_num := x\<rparr>) = in_section name st"
  by (simp add: in_section_def)

lemma yield_epic:
  assumes "epic_match (strip l) = Some (num, t)"
  shows "parse_line st l rest =
           Inr (append_issue (Issue t ''epic'' 1 (join '' '' (find_desc rest)) None (Some num))
                  (st\<lparr>current_epic_num := Some num\<rparr>))"
  using assms by (simp add: parse_line_def Let_def)

lemma step_section:
  assumes "epic_match (strip l) = None" "startswith ''### '' (strip l)"
  shows "parse_line st l rest = Inr (st\<lparr>current_section := Some (lower (strip (drop 4 (strip l))))\<rparr>)"
  using assms by (simp add: parse_line_def Let_def)

lemma step_feature:
  assumes "feature_match (strip l) = Some t"
  shows "parse_line st l rest =
           (if in_section ''features'' st then
              (case scan_attrs rest 2 ''feature'' [] of
                 Inl e \<Rightarrow> Inl e
               | Inr (p, k, ds) \<Rightarrow>
                   Inr (append_issue (Issue t k p (join '' '' ds) (epic_ref st) None) st))
            else Inr st)"
  using assms feature_line_only [OF assms] by (simp add: parse_line_def Let_def)

lemma step_task:
  assumes "task_match (strip l) = Some t"
  shows "parse_line st l rest =
           (if in_section ''tasks'' st
            then Inr (append_issue (Issue t ''task'' 2 [] (epic_ref st) None) st)
            else Inr st)"
  using assms task_line_only [OF assms] by (simp add: parse_line_def Let_def)

lemma step_chore:
  assumes "chore_match (strip l) = Some t"
  shows "parse_line st l rest =
           (if in_section ''chores'' st
            then Inr (append_issue (Issue t ''chore'' 3 [] (epic_ref st) None) st)
            else Inr st)"
  using assms chore_line_only [OF assms] by (simp add: parse_line_def Let_def)

lemma step_bug:
  assumes "bug_match (strip l) = Some t"
  shows "parse_line st l rest =
           (if in_section ''potential bugs'' st
            then Inr (append_issue (Issue t ''bug'' 4 [] (epic_ref st) None) st)
            else Inr st)"
  using assms bug_line_only [OF assms] by (simp add: parse_line_def Let_def)

lemma step_other:
  assumes "epic_match (strip l) = None" "\<not> startswith ''### '' (strip l)"
    "feature_match (strip l) = None" "task_match (strip l) = None"
    "chore_match (strip l) = None" "bug_match (strip l) = None"
  shows "parse_line st l rest = Inr st"
  using assms by (simp add: parse_line_def Let_def)

text \<open>What a turn can do to the state.\<close>

lemma parse_line_cases:
  assumes "parse_line st l rest = Inr st'"
  shows "(\<exists>num it. epic_match (strip l) = Some (num, title it) \<and> epic_id it = Some num \<and>
            issue_type it = ''epic'' \<and> priority it = 1 \<and>
            st' = append_issue it (st\<lparr>current_epic_num := Some num\<rparr>))
       \<or> (epic_match (strip l) = None \<and> (\<exists>s. st' = st\<lparr>current_section := s\<rparr>))
       \<or> (epic_match (strip l) = None \<and>
            (\<exists>it. st' = append_issue it st \<and> epic_id it = None \<and> parent it = epic_ref st))"
proof (cases "epic_match (strip l)")
  case (Some a)
  obtain num t where a: "a = (num, t)" by (cases a)
  show ?thesis
    using assms yield_epic [of l num t st rest] Some a
    by (intro disjI1 exI [of _ num] exI [of _ "Issue t ''epic'' 1 (join '' '' (find_desc rest)) None (Some num)"]) simp
next
  case None
  have "(\<exists>s. st' = st\<lparr>current_section := s\<rparr>) \<or>
        (\<exists>it. st' = append_issue it st \<and> epic_id it = None \<and> parent it = epic_ref st)"
  proof (cases "startswith ''### '' (strip l)")
    case True
    then show ?thesis using assms step_section [OF None True, of st rest] by auto
  next
    case nsec: False
    have same: "\<exists>s. st = st\<lparr>current_section := s\<rparr>"
      by (rule exI [of _ "current_section st"]) simp
    show ?thesis
    proof (cases "feature_match (strip l)")
      case (Some t)
      then show ?thesis using assms same step_feature [OF Some, of st rest]
        by (auto split: if_splits sum.splits prod.splits)
    next
      case nf: None
      show ?thesis
      proof (cases "task_match (strip l)")
        case (Some t)
        then show ?thesis using assms same step_task [OF Some, of st rest]
          by (auto split: if_splits)
      next
        case nt: None
        show ?thesis
        proof (cases "chore_match (strip l)")
          case (Some t)
          then show ?thesis using assms same step_chore [OF Some, of st rest]
            by (auto split: if_splits)
        next
          case nc: None
          show ?thesis
          proof (cases "bug_match (strip l)")
            case (Some t)
            then show ?thesis using assms same step_bug [OF Some, of st rest]
              by (auto split: if_splits)
          next
            case nb: None
            show ?thesis using assms same step_other [OF None nsec nf nt nc nb, of st rest] by simp
          qed
        qed
      qed
    qed
  qed
  with None show ?thesis by simp
qed


lemma step_epic_num:
  assumes "parse_line st l rest = Inr st'"
  shows "current_epic_num st' = (case header_num l of None \<Rightarrow> current_epic_num st | Some k \<Rightarrow> Some k)"
  using parse_line_cases [OF assms] by (auto simp: header_num_def)

lemma step_grows:
  assumes "parse_line st l rest = Inr st'"
  shows "issues (self st') = issues (self st) @ yield st l rest"
  using parse_line_cases [OF assms] assms by (auto simp: yield_def)

lemma step_nongroup_parent:
  assumes "it \<in> set (yield st l rest)" "header_num l = None"
  shows "parent it = epic_ref st"
proof (cases "parse_line st l rest")
  case (Inl e)
  with assms show ?thesis by (simp add: yield_def)
next
  case (Inr st')
  from parse_line_cases [OF Inr] assms Inr show ?thesis
    by (auto simp: yield_def header_num_def)
qed

lemma parse_loop_append:
  "parse_loop st (pre @ suf) =
     (case loop_upto st pre suf of Inl e \<Rightarrow> Inl e | Inr st' \<Rightarrow> parse_loop st' suf)"
  by (induction pre arbitrary: st) (auto split: sum.splits)

lemma parse_loop_upto: "parse_loop st lines = loop_upto st lines []"
  using parse_loop_append [of st lines "[]"] by (simp split: sum.splits)

lemma loop_upto_snoc:
  "loop_upto st (pre @ [l]) suf =
     (case loop_upto st pre (l # suf) of Inl e \<Rightarrow> Inl e | Inr st' \<Rightarrow> parse_line st' l suf)"
  by (induction pre arbitrary: st) (auto split: sum.splits)

lemma loop_upto_epic_num:
  "loop_upto st pre suf = Inr st' \<Longrightarrow>
     current_epic_num st' = (case nearest_header pre of None \<Rightarrow> current_epic_num st | Some k \<Rightarrow> Some k)"
proof (induction pre arbitrary: st)
  case Nil
  then show ?case by simp
next
  case (Cons l pre)
  from Cons.prems obtain st1 where s1: "parse_line st l (pre @ suf) = Inr st1"
    and s2: "loop_upto st1 pre suf = Inr st'"
    by (auto split: sum.splits)
  show ?case using Cons.IH [OF s2] step_epic_num [OF s1]
    by (auto split: option.splits)
qed

lemma loop_upto_Suc:
  assumes "n < length lines"
  shows "loop_upto st (take (Suc n) lines) (drop (Suc n) lines) =
     (case loop_upto st (take n lines) (drop n lines) of
        Inl e \<Rightarrow> Inl e
      | Inr st' \<Rightarrow> parse_line st' (lines ! n) (drop (Suc n) lines))"
  using assms loop_upto_snoc [of st "take n lines" "lines ! n" "drop (Suc n) lines"]
  by (simp add: take_Suc_conv_app_nth Cons_nth_drop_Suc)

lemma loop_upto_items:
  "n \<le> length lines \<Longrightarrow> loop_upto (start new_parser) (take n lines) (drop n lines) = Inr st \<Longrightarrow>
     issues (self st) = concat (map (line_items lines) [0..<n])"
proof (induction n arbitrary: st)
  case 0
  then show ?case by (auto simp: start_def new_parser_def)
next
  case (Suc n)
  then have n: "n < length lines" by simp
  from Suc.prems(2) obtain st1
    where s1: "loop_upto (start new_parser) (take n lines) (drop n lines) = Inr st1"
      and s2: "parse_line st1 (lines ! n) (drop (Suc n) lines) = Inr st"
    unfolding loop_upto_Suc [OF n] by (auto split: sum.splits)
  have "line_items lines n = yield st1 (lines ! n) (drop (Suc n) lines)"
    using n s1 by (simp add: line_items_def)
  then show ?case
    using Suc.IH [OF _ s1] n step_grows [OF s2] by simp
qed

text \<open>The list that a new parser returns holds the items of the lines, line after line.\<close>

lemma parse_items_by_line:
  assumes "parse new_parser content = Inr (its, slf')"
  shows "its = concat (map (line_items (split_chr CHR 0x0A content)) [0..<length (split_chr CHR 0x0A content)])"
proof -
  obtain st where st: "parse_loop (start new_parser) (split_chr CHR 0x0A content) = Inr st"
    and its: "its = issues (self st)"
    using assms by (auto simp: parse_def split: sum.splits)
  show ?thesis
    using loop_upto_items [of "length (split_chr CHR 0x0A content)" "split_chr CHR 0x0A content" st] st its
    by (simp add: parse_loop_upto)
qed

lemma split_chr_nonempty [simp]: "split_chr c s \<noteq> []"
  by (induction s) (auto split: list.splits)

lemma hd_split_chr: "hd (split_chr c s) = takeWhile (\<lambda>x. x \<noteq> c) s"
  by (induction s) (auto split: list.splits)

lemma split_chr_append_sep:
  "c \<notin> set p \<Longrightarrow> split_chr c (p @ c # r) = p # split_chr c r"
  by (induction p) (auto split: list.splits)

lemma second_split_colon:
  "c \<notin> set p \<Longrightarrow> second (split_chr c (p @ c # r)) = Inr (takeWhile (\<lambda>x. x \<noteq> c) r)"
  using hd_split_chr [of c r] split_chr_nonempty [of c r]
  by (cases "split_chr c r") (auto simp: split_chr_append_sep second_def)

lemma second_split_chr1:
  "c \<notin> set p \<Longrightarrow> second (split_chr1 c (p @ c # r)) = Inr r"
  by (simp add: split_chr1_def second_def takeWhile_append dropWhile_append)

lemma space_not [simp]: "is_space c \<Longrightarrow> c \<noteq> CHR '':''" "is_space c \<Longrightarrow> c \<noteq> CHR ''(''"
  "is_space c \<Longrightarrow> \<not> is_digit c" "is_space c \<Longrightarrow> c \<noteq> CHR ''-''" "is_space c \<Longrightarrow> c \<noteq> CHR ''+''"
  by (auto simp: is_space_def is_digit_def)

lemma digit_not [simp]: "is_digit c \<Longrightarrow> c \<noteq> CHR '':''" "is_digit c \<Longrightarrow> c \<noteq> CHR ''(''"
  "is_digit c \<Longrightarrow> \<not> is_space c" "is_digit c \<Longrightarrow> c \<noteq> CHR ''-''" "is_digit c \<Longrightarrow> c \<noteq> CHR ''+''"
  by (auto simp: is_space_def is_digit_def)







text \<open>The priority that the look-ahead returns is that of the last priority line of the block.\<close>

lemma scan_attrs_priority:
  "scan_attrs rest p k ds = Inr (p', k', ds') \<Longrightarrow>
     (case priority_lines rest of
        [] \<Rightarrow> p' = p
      | x # xs \<Rightarrow> priority_value (strip (last (x # xs))) = Inr p')"
proof (induction rest arbitrary: p k ds)
  case Nil
  then show ?case by (simp add: priority_lines_def attr_block_def)
next
  case (Cons l rest)
  show ?case
  proof (cases "strip l = [] \<or> startswith ''**'' (strip l) \<or> startswith ''###'' (strip l)")
    case True
    have np: "\<not> startswith ''- Priority:'' (strip l)" "\<not> startswith ''- Type:'' (strip l)"
       "\<not> startswith ''- Description:'' (strip l)"
      using True by (auto simp: startswith_iff)
    from True np Cons.prems show ?thesis
      by (auto simp: priority_lines_def attr_block_def Let_def split: if_splits)
  next
    case False
    then have blk: "priority_lines (l # rest) =
        (if startswith ''- Priority:'' (strip l) then l # priority_lines rest else priority_lines rest)"
      by (simp add: priority_lines_def attr_block_def)
    show ?thesis
    proof (cases "startswith ''- Priority:'' (strip l)")
      case True
      with False Cons.prems obtain q where q: "priority_value (strip l) = Inr q"
        and r: "scan_attrs rest q k ds = Inr (p', k', ds')"
        by (auto simp: Let_def split: sum.splits)
      from Cons.IH [OF r] q True show ?thesis
        unfolding blk by (auto split: list.splits)
    next
      case np: False
      from False np Cons.prems obtain k1 ds1 where r: "scan_attrs rest p k1 ds1 = Inr (p', k', ds')"
        by (auto simp: Let_def split: sum.splits if_splits)
      from Cons.IH [OF r] np show ?thesis
        unfolding blk by simp
    qed
  qed
qed

lemma second_attr:
  assumes "startswith (p @ '':'') x" "CHR '':'' \<notin> set p"
  shows "\<exists>v. second (split_chr CHR '':'' x) = Inr v" "\<exists>v. second (split_chr1 CHR '':'' x) = Inr v"
proof -
  from assms obtain r where "x = p @ CHR '':'' # r" by (auto simp: startswith_iff)
  then show "\<exists>v. second (split_chr CHR '':'' x) = Inr v" "\<exists>v. second (split_chr1 CHR '':'' x) = Inr v"
    using second_split_colon [OF assms(2), of r] second_split_chr1 [OF assms(2), of r] by auto
qed

lemma scan_attrs_total:
  "\<forall>l\<in>set rest. startswith ''- Priority:'' (strip l) \<longrightarrow> (\<exists>q. priority_value (strip l) = Inr q) \<Longrightarrow>
     \<exists>r. scan_attrs rest p k ds = Inr r"
proof (induction rest arbitrary: p k ds)
  case Nil
  then show ?case by simp
next
  case (Cons l rest)
  have ty: "startswith ''- Type:'' (strip l) \<Longrightarrow> \<exists>v. second (split_chr CHR '':'' (strip l)) = Inr v"
    using second_attr(1) [of "''- Type''" "strip l"] by simp
  have de: "startswith ''- Description:'' (strip l) \<Longrightarrow> \<exists>v. second (split_chr1 CHR '':'' (strip l)) = Inr v"
    using second_attr(2) [of "''- Description''" "strip l"] by simp
  from Cons.prems have rest: "\<forall>l\<in>set rest. startswith ''- Priority:'' (strip l) \<longrightarrow> (\<exists>q. priority_value (strip l) = Inr q)"
    by simp
  show ?case
    using Cons.IH [OF rest] Cons.prems ty de
    by (auto simp: Let_def split: sum.splits)
qed

lemma parse_line_total:
  assumes "\<forall>l\<in>set rest. startswith ''- Priority:'' (strip l) \<longrightarrow> (\<exists>q. priority_value (strip l) = Inr q)"
  shows "\<exists>st'. parse_line st l rest = Inr st'"
  using scan_attrs_total [OF assms, of 2 "''feature''" "[]"]
  by (auto simp: parse_line_def Let_def split: option.splits sum.splits)

lemma parse_loop_total:
  "\<forall>l\<in>set lines. startswith ''- Priority:'' (strip l) \<longrightarrow> (\<exists>q. priority_value (strip l) = Inr q) \<Longrightarrow>
     \<exists>st'. parse_loop st lines = Inr st'"
proof (induction lines arbitrary: st)
  case Nil
  then show ?case by simp
next
  case (Cons l lines)
  then have rest: "\<forall>l\<in>set lines. startswith ''- Priority:'' (strip l) \<longrightarrow> (\<exists>q. priority_value (strip l) = Inr q)"
    by simp
  from parse_line_total [OF rest, of st l] obtain st1 where "parse_line st l lines = Inr st1" by blast
  with Cons.IH [OF rest, of st1] show ?case by simp
qed

lemma line_items_yield:
  assumes "it \<in> set (line_items lines n)"
  shows "\<exists>st. n < length lines \<and> loop_upto (start new_parser) (take n lines) (drop n lines) = Inr st \<and>
    it \<in> set (yield st (lines ! n) (drop (Suc n) lines))"
proof -
  have n: "n < length lines"
  proof (rule ccontr)
    assume "\<not> n < length lines"
    then have "line_items lines n = []" by (simp add: line_items_def)
    with assms show False by simp
  qed
  show ?thesis
  proof (cases "loop_upto (start new_parser) (take n lines) (drop n lines)")
    case (Inl e)
    then have "line_items lines n = []" by (simp add: line_items_def)
    with assms show ?thesis by simp
  next
    case (Inr st)
    with n have "line_items lines n = yield st (lines ! n) (drop (Suc n) lines)"
      by (simp add: line_items_def)
    with assms Inr n show ?thesis by simp
  qed
qed

lemma yield_cases:
  assumes "it \<in> set (yield st l rest)"
  shows "(\<exists>num. epic_match (strip l) = Some (num, title it) \<and> issue_type it = ''epic'' \<and> priority it = 1
            \<and> epic_id it = Some num)
       \<or> (feature_match (strip l) = Some (title it) \<and> in_section ''features'' st \<and>
            (\<exists>ds. scan_attrs rest 2 ''feature'' [] = Inr (priority it, issue_type it, ds)))
       \<or> (task_match (strip l) = Some (title it) \<and> issue_type it = ''task'' \<and> priority it = 2)
       \<or> (chore_match (strip l) = Some (title it) \<and> issue_type it = ''chore'' \<and> priority it = 3)
       \<or> (bug_match (strip l) = Some (title it) \<and> issue_type it = ''bug'' \<and> priority it = 4)"
proof (cases "epic_match (strip l)")
  case (Some a)
  obtain num t where a: "a = (num, t)" by (cases a)
  show ?thesis
    using assms yield_epic [of l num t st rest] Some a by (simp add: yield_def)
next
  case None
  show ?thesis
  proof (cases "startswith ''### '' (strip l)")
    case True
    then show ?thesis using assms step_section [OF None True, of st rest] by (simp add: yield_def)
  next
    case nsec: False
    show ?thesis
    proof (cases "feature_match (strip l)")
      case (Some t)
      then show ?thesis using assms step_feature [OF Some, of st rest]
        by (auto simp: yield_def split: if_splits sum.splits prod.splits)
    next
      case nf: None
      show ?thesis
      proof (cases "task_match (strip l)")
        case (Some t)
        then show ?thesis using assms step_task [OF Some, of st rest]
          by (auto simp: yield_def split: if_splits)
      next
        case nt: None
        show ?thesis
        proof (cases "chore_match (strip l)")
          case (Some t)
          then show ?thesis using assms step_chore [OF Some, of st rest]
            by (auto simp: yield_def split: if_splits)
        next
          case nc: None
          show ?thesis
          proof (cases "bug_match (strip l)")
            case (Some t)
            then show ?thesis using assms step_bug [OF Some, of st rest]
              by (auto simp: yield_def split: if_splits)
          next
            case nb: None
            show ?thesis using assms step_other [OF None nsec nf nt nc nb, of st rest]
              by (simp add: yield_def)
          qed
        qed
      qed
    qed
  qed
qed

text \<open>
  The loop never reads the list of the parser object: items that are there before the call
  stay in front of the items of the call.
\<close>

lemma after_simps [simp]:
  "current_epic_num (after acc st) = current_epic_num st"
  "current_section (after acc st) = current_section st"
  "issues (self (after acc st)) = acc @ issues (self st)"
  "in_section name (after acc st) = in_section name st"
  "epic_ref (after acc st) = epic_ref st"
  "append_issue x (after acc st) = after acc (append_issue x st)"
  "(after acc st)\<lparr>current_epic_num := k\<rparr> = after acc (st\<lparr>current_epic_num := k\<rparr>)"
  "(after acc st)\<lparr>current_section := s\<rparr> = after acc (st\<lparr>current_section := s\<rparr>)"
  by (simp_all add: after_def in_section_def epic_ref_def append_issue_def)

lemma parse_line_after:
  "parse_line (after acc st) l rest =
     (case parse_line st l rest of Inl e \<Rightarrow> Inl e | Inr st' \<Rightarrow> Inr (after acc st'))"
  by (simp add: parse_line_def Let_def split: option.splits sum.splits prod.splits)

lemma parse_loop_after:
  "parse_loop (after acc st) lines =
     (case parse_loop st lines of Inl e \<Rightarrow> Inl e | Inr st' \<Rightarrow> Inr (after acc st'))"
  by (induction lines arbitrary: st) (auto simp: parse_line_after split: sum.splits)

lemma self_after: "self (after acc st) = \<lparr>issues = acc @ issues (self st)\<rparr>"
  by (simp add: after_def)

lemma parse_again:
  assumes "parse new_parser content = Inr (its, slf)"
  shows "parse slf content = Inr (its @ its, \<lparr>issues = its @ its\<rparr>)"
proof (cases "parse_loop (start new_parser) (split_chr CHR 0x0A content)")
  case (Inl e)
  with assms show ?thesis by (simp add: parse_def)
next
  case (Inr st)
  from assms have "Inr (issues (self st), self st) = (Inr (its, slf) :: error + issue list \<times> parser)"
    unfolding parse_def Inr by (simp only: sum.case)
  note e = this [unfolded sum.inject prod.inject]
  have i: "issues (self st) = its" using e by (rule conjunct1)
  have j: "self st = slf" using e by (rule conjunct2)
  have "issues slf = its" unfolding j [symmetric] by (rule i)
  then have s: "start slf = after its (start new_parser)"
    by (simp add: start_def after_def new_parser_def)
  have "parse_loop (start slf) (split_chr CHR 0x0A content) = Inr (after its st)"
    unfolding s parse_loop_after Inr by simp
  then show ?thesis
    using i by (simp add: parse_def self_after)
qed

section \<open>Facts about the three passes\<close>

lemma execute_command_dry:
  "execute_command h log cmd True = r \<Longrightarrow> \<exists>i. r = Inr ((True, i), log)"
  by (auto simp: execute_command_def)

lemma execute_command_run:
  "execute_command h log cmd False = Inr ((ok, i), log') \<Longrightarrow> log' = log @ [Ran cmd]"
  by (auto simp: execute_command_def split: proc_out.splits json_out.splits)

text \<open>The only exception of \<^verbatim>\<open>execute_command\<close> comes from an output that is no object.\<close>

lemma execute_command_total:
  "\<forall>out. json_id h out \<noteq> NotObject \<Longrightarrow> \<exists>r. execute_command h log cmd dry = Inr r"
  by (auto simp: execute_command_def split: proc_out.splits json_out.splits)

text \<open>One turn of the first pass, when the pass comes to its end.\<close>

lemma create_epics_Cons:
  assumes "create_epics h bd dry (it # its) em log = Inr (its1, em1, log1)"
  shows "\<exists>it' its' em' log'. its1 = it' # its' \<and> create_epics h bd dry its em' log' = Inr (its', em1, log1) \<and>
     (issue_type it \<noteq> ''epic'' \<and> it' = it \<and> em' = em \<and> log' = log \<or>
      issue_type it = ''epic'' \<and>
        (execute_command h log (to_command it bd) dry = Inr ((False, []), log') \<and> it' = it \<and> em' = em \<or>
         (\<exists>iid. execute_command h log (to_command it bd) dry = Inr ((True, iid), log') \<and>
            it' = it\<lparr>beads_id := Some iid\<rparr> \<and> em' = em(epic_key it \<mapsto> iid))))"
proof (cases "issue_type it = ''epic''")
  case False
  with assms show ?thesis by (auto split: sum.splits)
next
  case True
  show ?thesis
  proof (cases "execute_command h log (to_command it bd) dry")
    case (Inl e)
    with True assms show ?thesis by simp
  next
    case (Inr x)
    obtain ok iid log' where x: "x = ((ok, iid), log')" by (metis prod.exhaust)
    have f: "\<not> ok \<Longrightarrow> iid = []"
      using Inr x by (auto simp: execute_command_def split: if_splits proc_out.splits json_out.splits)
    show ?thesis
    proof (cases ok)
      case ok: True
      with True Inr x assms show ?thesis by (auto split: sum.splits)
    next
      case False
      with True Inr x assms f show ?thesis by (auto split: sum.splits)
    qed
  qed
qed


text \<open>A key enters the lookup table only with an epic that the store created.\<close>

lemma create_epics_key:
  "create_epics h bd dry its em log = Inr (its1, em1, log1) \<Longrightarrow> em1 k \<noteq> None \<Longrightarrow>
     em k \<noteq> None \<or> (\<exists>g\<in>set its1. issue_type g = ''epic'' \<and> epic_key g = k \<and> beads_id g \<noteq> None)"
proof (induction its arbitrary: em log its1)
  case Nil
  then show ?case by simp
next
  case (Cons it its)
  from create_epics_Cons [OF Cons.prems(1)] obtain it' its' em' log'
    where i: "its1 = it' # its'" and r: "create_epics h bd dry its em' log' = Inr (its', em1, log1)"
      and c: "em' = em \<or> (\<exists>iid. issue_type it = ''epic'' \<and> it' = it\<lparr>beads_id := Some iid\<rparr> \<and>
                em' = em(epic_key it \<mapsto> iid))"
    by blast
  from Cons.IH [OF r Cons.prems(2)]
  show ?case
  proof
    assume e: "em' k \<noteq> None"
    from c show ?thesis
    proof
      assume "em' = em"
      with e show ?thesis by simp
    next
      assume "\<exists>iid. issue_type it = ''epic'' \<and> it' = it\<lparr>beads_id := Some iid\<rparr> \<and>
                em' = em(epic_key it \<mapsto> iid)"
      then obtain iid where t: "issue_type it = ''epic''" "it' = it\<lparr>beads_id := Some iid\<rparr>"
        "em' = em(epic_key it \<mapsto> iid)" by blast
      show ?thesis
      proof (cases "k = epic_key it")
        case True
        have "it' \<in> set its1" "issue_type it' = ''epic''" "epic_key it' = k" "beads_id it' \<noteq> None"
          using i t True by (simp_all add: epic_key_def)
        then show ?thesis by blast
      next
        case False
        with e t show ?thesis by simp
      qed
    qed
  next
    assume "\<exists>g\<in>set its'. issue_type g = ''epic'' \<and> epic_key g = k \<and> beads_id g \<noteq> None"
    with i show ?thesis by auto
  qed
qed

text \<open>In a dry run every epic gets an identifier.\<close>

lemma create_epics_dry:
  "create_epics h bd True its em log = Inr (its1, em1, log1) \<Longrightarrow> g \<in> set its1 \<Longrightarrow>
     issue_type g = ''epic'' \<Longrightarrow> beads_id g \<noteq> None"
proof (induction its arbitrary: em log its1)
  case Nil
  then show ?case by simp
next
  case (Cons it its)
  from create_epics_Cons [OF Cons.prems(1)] obtain it' its' em' log'
    where i: "its1 = it' # its'" and r: "create_epics h bd True its em' log' = Inr (its', em1, log1)"
      and c: "issue_type it \<noteq> ''epic'' \<and> it' = it \<or>
        issue_type it = ''epic'' \<and>
        (execute_command h log (to_command it bd) True = Inr ((False, []), log') \<or>
         (\<exists>iid. it' = it\<lparr>beads_id := Some iid\<rparr>))"
    by blast
  have nf: "execute_command h log (to_command it bd) True \<noteq> Inr ((False, []), log')"
    using execute_command_dry [OF refl, of h log "to_command it bd"] by auto
  show ?case
  proof (cases "g = it'")
    case True
    with c nf Cons.prems(3) show ?thesis by auto
  next
    case False
    with Cons.prems(2) i have "g \<in> set its'" by simp
    from Cons.IH [OF r this Cons.prems(3)] show ?thesis .
  qed
qed

text \<open>The first pass leaves the items that are no epics as they are.\<close>

lemma create_epics_others:
  "create_epics h bd dry its em log = Inr (its1, em1, log1) \<Longrightarrow>
     filter (\<lambda>c. issue_type c \<noteq> ''epic'') its1 = filter (\<lambda>c. issue_type c \<noteq> ''epic'') its"
proof (induction its arbitrary: em log its1)
  case Nil
  then show ?case by simp
next
  case (Cons it its)
  from create_epics_Cons [OF Cons.prems(1)] obtain it' its' em' log'
    where i: "its1 = it' # its'" and r: "create_epics h bd dry its em' log' = Inr (its', em1, log1)"
      and c: "issue_type it \<noteq> ''epic'' \<and> it' = it \<or> issue_type it = ''epic'' \<and> issue_type it' = ''epic''"
    by fastforce
  from Cons.IH [OF r] i c show ?case by auto
qed

lemma set_alist_update: "set (AList.update k v al) \<subseteq> insert (k, v) (set al)"
  by (induction al) auto

lemma resolve_parent_beads [simp]: "resolve_parent em (c\<lparr>beads_id := b\<rparr>) = resolve_parent em c"
  by (simp add: resolve_parent_def)

text \<open>One turn of the second pass, when the pass comes to its end.\<close>

lemma create_children_Cons:
  assumes "create_children h bd dry em (it # its) pm log = Inr (its2, pm2, log2)"
  shows "\<exists>it' its' pm' log'. its2 = it' # its' \<and> create_children h bd dry em its pm' log' = Inr (its', pm2, log2) \<and>
     (issue_type it = ''epic'' \<and> it' = it \<and> pm' = pm \<and> log' = log \<or>
      issue_type it \<noteq> ''epic'' \<and>
        (execute_command h log (to_command it bd) dry = Inr ((False, []), log') \<and> it' = it \<and> pm' = pm \<or>
         (\<exists>iid. execute_command h log (to_command it bd) dry = Inr ((True, iid), log') \<and>
            it' = it\<lparr>beads_id := Some iid\<rparr> \<and>
            pm' = (if resolve_parent em it \<noteq> [] then AList.update iid (resolve_parent em it) pm else pm))))"
proof (cases "issue_type it = ''epic''")
  case True
  with assms show ?thesis by (auto split: sum.splits)
next
  case False
  show ?thesis
  proof (cases "execute_command h log (to_command it bd) dry")
    case (Inl e)
    with False assms show ?thesis by (simp add: Let_def)
  next
    case (Inr x)
    obtain ok iid log' where x: "x = ((ok, iid), log')" by (metis prod.exhaust)
    have f: "\<not> ok \<Longrightarrow> iid = []"
      using Inr x by (auto simp: execute_command_def split: if_splits proc_out.splits json_out.splits)
    show ?thesis
    proof (cases ok)
      case ok: True
      with False Inr x assms show ?thesis by (auto simp: Let_def split: sum.splits)
    next
      case nok: False
      with False Inr x assms f show ?thesis by (auto simp: Let_def split: sum.splits)
    qed
  qed
qed

text \<open>The second pass submits every item that is not an epic, in order.\<close>

lemma create_children_events:
  "create_children h bd False em its pm log = Inr (its2, pm2, log2) \<Longrightarrow>
     log2 = log @ map (\<lambda>c. Ran (to_command c bd)) (filter (\<lambda>c. issue_type c \<noteq> ''epic'') its)"
proof (induction its arbitrary: pm log its2)
  case Nil
  then show ?case by simp
next
  case (Cons it its)
  from create_children_Cons [OF Cons.prems] obtain it' its' pm' log'
    where r: "create_children h bd False em its pm' log' = Inr (its', pm2, log2)"
      and c: "issue_type it = ''epic'' \<and> log' = log \<or>
        issue_type it \<noteq> ''epic'' \<and> (\<exists>ok iid. execute_command h log (to_command it bd) False = Inr ((ok, iid), log'))"
    by blast
  from c show ?case
  proof
    assume "issue_type it = ''epic'' \<and> log' = log"
    with Cons.IH [OF r] show ?thesis by simp
  next
    assume a: "issue_type it \<noteq> ''epic'' \<and>
      (\<exists>ok iid. execute_command h log (to_command it bd) False = Inr ((ok, iid), log'))"
    then have "log' = log @ [Ran (to_command it bd)]"
      using execute_command_run by blast
    with Cons.IH [OF r] a show ?thesis by simp
  qed
qed

text \<open>Every pending edge was put there for a created item whose parent the table resolves.\<close>

lemma create_children_edges:
  "create_children h bd dry em its pm log = Inr (its2, pm2, log2) \<Longrightarrow> (cid, pid) \<in> set pm2 \<Longrightarrow>
     (cid, pid) \<in> set pm \<or>
     (\<exists>c\<in>set its2. issue_type c \<noteq> ''epic'' \<and> beads_id c = Some cid \<and> resolve_parent em c = pid \<and> pid \<noteq> [])"
proof (induction its arbitrary: pm log its2)
  case Nil
  then show ?case by simp
next
  case (Cons it its)
  let ?new = "\<lambda>xs. \<exists>c\<in>set xs. issue_type c \<noteq> ''epic'' \<and> beads_id c = Some cid \<and>
    resolve_parent em c = pid \<and> pid \<noteq> []"
  from create_children_Cons [OF Cons.prems(1)] obtain it' its' pm' log'
    where i: "its2 = it' # its'" and r: "create_children h bd dry em its pm' log' = Inr (its', pm2, log2)"
      and c: "pm' = pm \<or> (\<exists>iid. issue_type it \<noteq> ''epic'' \<and> it' = it\<lparr>beads_id := Some iid\<rparr> \<and>
           pm' = (if resolve_parent em it \<noteq> [] then AList.update iid (resolve_parent em it) pm else pm))"
    by blast
  from Cons.IH [OF r Cons.prems(2)]
  show ?case
  proof
    assume "?new its'"
    with i show ?thesis by auto
  next
    assume m: "(cid, pid) \<in> set pm'"
    from c show ?thesis
    proof
      assume "pm' = pm"
      with m show ?thesis by simp
    next
      assume "\<exists>iid. issue_type it \<noteq> ''epic'' \<and> it' = it\<lparr>beads_id := Some iid\<rparr> \<and>
           pm' = (if resolve_parent em it \<noteq> [] then AList.update iid (resolve_parent em it) pm else pm)"
      then obtain iid where t: "issue_type it \<noteq> ''epic''" "it' = it\<lparr>beads_id := Some iid\<rparr>"
        "pm' = (if resolve_parent em it \<noteq> [] then AList.update iid (resolve_parent em it) pm else pm)"
        by blast
      from m t(3) have "(cid, pid) \<in> set pm \<or> (cid = iid \<and> pid = resolve_parent em it \<and> pid \<noteq> [])"
        using set_alist_update [of iid "resolve_parent em it" pm] by (auto split: if_splits)
      then show ?thesis
      proof
        assume "(cid, pid) \<in> set pm"
        then show ?thesis by simp
      next
        assume "cid = iid \<and> pid = resolve_parent em it \<and> pid \<noteq> []"
        then have q: "cid = iid" "pid = resolve_parent em it" "pid \<noteq> []" by blast+
        have "it' \<in> set its2 \<and> issue_type it' \<noteq> ''epic'' \<and> beads_id it' = Some cid \<and>
          resolve_parent em it' = pid \<and> pid \<noteq> []"
          unfolding q(1,2) using i t(1,2) q(3) [unfolded q(2)] by simp
        then show ?thesis by blast
      qed
    qed
  qed
qed

text \<open>Without an output that is no object, the first two passes come to their end.\<close>

lemma create_epics_total:
  "\<forall>out. json_id h out \<noteq> NotObject \<Longrightarrow> \<exists>r. create_epics h bd dry its em log = Inr r"
proof (induction its arbitrary: em log)
  case Nil
  then show ?case by simp
next
  case (Cons it its)
  from execute_command_total [OF Cons.prems, of log "to_command it bd" dry]
  obtain ok iid log' where e: "execute_command h log (to_command it bd) dry = Inr ((ok, iid), log')"
    by (metis prod.exhaust)
  from Cons.IH [OF Cons.prems] obtain r1 r2 r3
    where "create_epics h bd dry its em log = Inr r1"
      "create_epics h bd dry its em log' = Inr r2"
      "create_epics h bd dry its (em(epic_key it \<mapsto> iid)) log' = Inr r3"
    by metis
  with e show ?case by (auto split: prod.splits)
qed

lemma create_children_total:
  "\<forall>out. json_id h out \<noteq> NotObject \<Longrightarrow> \<exists>r. create_children h bd dry em its pm log = Inr r"
proof (induction its arbitrary: pm log)
  case Nil
  then show ?case by simp
next
  case (Cons it its)
  let ?pm = "if resolve_parent em it \<noteq> [] then AList.update iid (resolve_parent em it) pm else pm"
  from execute_command_total [OF Cons.prems, of log "to_command it bd" dry]
  obtain ok iid log' where e: "execute_command h log (to_command it bd) dry = Inr ((ok, iid), log')"
    by (metis prod.exhaust)
  from Cons.IH [OF Cons.prems] obtain r1 r2 r3
    where "create_children h bd dry em its pm log = Inr r1"
      "create_children h bd dry em its pm log' = Inr r2"
      "create_children h bd dry em its
         (if resolve_parent em it \<noteq> [] then AList.update iid (resolve_parent em it) pm else pm) log' = Inr r3"
    by metis
  with e show ?case by (auto simp: Let_def split: prod.splits)
qed

text \<open>The third pass runs link commands only, each for a pending edge.\<close>

lemma try_link_events:
  "try_link h cmd rs log = (r, log') \<Longrightarrow> \<exists>new. log' = log @ new \<and> (\<forall>c. Ran c \<in> set new \<longrightarrow> c = cmd)"
proof (induction rs arbitrary: log)
  case Nil
  then show ?case by simp
next
  case (Cons retry later)
  show ?case
  proof (cases "run h log cmd")
    case (Completed out)
    with Cons.prems show ?thesis by auto
  next
    case (CalledProcessError err)
    show ?thesis
    proof (cases "retry < 2 \<and> contains ''database is locked'' err")
      case True
      with CalledProcessError Cons.prems
      have "try_link h cmd later (log @ [Ran cmd, Slept (500 * (retry + 1))]) = (r, log')" by simp
      from Cons.IH [OF this] show ?thesis by auto
    next
      case False
      with CalledProcessError Cons.prems show ?thesis by auto
    qed
  qed
qed

lemma link_all_events:
  "link_all h bd pm sc fc log = (sc', fc', log') \<Longrightarrow>
     \<exists>new. log' = log @ new \<and> (\<forall>cmd. Ran cmd \<in> set new \<longrightarrow> (\<exists>(cid, pid)\<in>set pm. cmd = dep_cmd bd cid pid))"
proof (induction pm arbitrary: sc fc log)
  case Nil
  then show ?case by simp
next
  case (Cons e pm)
  obtain c p where e: "e = (c, p)" by (cases e)
  obtain r log1 where t: "try_link h (dep_cmd bd c p) [0, 1, 2] log = (r, log1)" by (metis prod.exhaust)
  from try_link_events [OF t] obtain n1 where n1: "log1 = log @ n1" "\<forall>x. Ran x \<in> set n1 \<longrightarrow> x = dep_cmd bd c p"
    by blast
  from Cons.prems e t obtain sc1 fc1 where "link_all h bd pm sc1 fc1 log1 = (sc', fc', log')"
    by (cases r) auto
  from Cons.IH [OF this] obtain n2 where n2: "log' = log1 @ n2"
    "\<forall>cmd. Ran cmd \<in> set n2 \<longrightarrow> (\<exists>(cid, pid)\<in>set pm. cmd = dep_cmd bd cid pid)"
    by blast
  show ?case
    using n1 n2 e by (intro exI [of _ "n1 @ n2"]) auto
qed

lemma try_link_contended:
  assumes "contended h log d" "contended h (log @ [Ran d, Slept 500]) d"
    "contended h (log @ [Ran d, Slept 500, Ran d, Slept 1000]) d"
  shows "try_link h d [0, 1, 2] log = (Failed, log @ [Ran d, Slept 500, Ran d, Slept 1000, Ran d])"
  using assms by (auto simp: contended_def split: proc_out.splits)

lemma try_link_refused:
  assumes "refused h log d"
  shows "try_link h d (retry # later) log = (Failed, log @ [Ran d])"
  using assms by (auto simp: refused_def split: proc_out.splits)

text \<open>
  An output that is JSON and no object ends the whole run: the \<^verbatim>\<open>AttributeError\<close> of
  \<^verbatim>\<open>output.get\<close> is caught nowhere.
\<close>

lemma non_object_reply_ends_run:
  "(case generate_issues list_replying_host (join ''\<newline>'' scenario_a) ''bd'' False of
      Inl e \<Rightarrow> e = AttributeError
    | Inr r \<Rightarrow> False)"
  by code_simp


section \<open>Properties of the parser\<close>

text \<open>
  The properties speak of the items of a line (\<open>line_items\<close>).  By \<open>parse_items_by_line\<close>
  the list that a new parser returns is exactly these items, line after line.
\<close>

lemma scenario_a_parse:
  "parse new_parser (join ''\<newline>'' scenario_a) = Inr (scenario_a_items, \<lparr>issues = scenario_a_items\<rparr>)"
  by code_simp

text \<open>
  C1 (as amended).  A structural item line above which no group header has been opened is
  not an error.  The parser yields its item with the parent reference \<^verbatim>\<open>epic-None\<close>, and
  it returns a list for every document whose \<^verbatim>\<open>- Priority:\<close> lines hold integers: the one
  failure of the parse is the \<^verbatim>\<open>ValueError\<close> of such a line.  When the parse does fail, the
  run ends before any command is sent to the store.
\<close>

theorem item_before_group:
  "(it \<in> set (line_items lines n) \<and> header_num (lines ! n) = None \<and> nearest_header (take n lines) = None
      \<longrightarrow> parent it = Some ''epic-None'')
   \<and> ((\<forall>l\<in>set (split_chr CHR 0x0A content).
          startswith ''- Priority:'' (strip l) \<longrightarrow> (\<exists>q. priority_value (strip l) = Inr q))
      \<longrightarrow> (\<exists>its slf'. parse slf content = Inr (its, slf')))
   \<and> (parse new_parser content = Inl e \<longrightarrow> generate_issues h content bd dry = Inl e)"
proof (intro conjI impI)
  assume a: "it \<in> set (line_items lines n) \<and> header_num (lines ! n) = None \<and>
    nearest_header (take n lines) = None"
  then obtain st where st: "loop_upto (start new_parser) (take n lines) (drop n lines) = Inr st"
    and y: "it \<in> set (yield st (lines ! n) (drop (Suc n) lines))"
    using line_items_yield [of it lines n] by blast
  have "current_epic_num st = None"
    using loop_upto_epic_num [OF st] a by (simp add: start_def)
  then show "parent it = Some ''epic-None''"
    using step_nongroup_parent [OF y] a by (simp add: epic_ref_def fmt_opt_def)
next
  assume "\<forall>l\<in>set (split_chr CHR 0x0A content).
          startswith ''- Priority:'' (strip l) \<longrightarrow> (\<exists>q. priority_value (strip l) = Inr q)"
  from parse_loop_total [OF this, of "start slf"]
  show "\<exists>its slf'. parse slf content = Inr (its, slf')"
    by (auto simp: parse_def)
next
  assume "parse new_parser content = Inl e"
  then show "generate_issues h content bd dry = Inl e"
    by (simp add: generate_issues_def)
qed

theorem item_before_group_witness:
  "orphan_item \<in> set (line_items orphan_feature 1) \<and> parent orphan_item = Some ''epic-None''
   \<and> (\<exists>its slf'. parse new_parser (join ''\<newline>'' orphan_feature) = Inr (its, slf'))
   \<and> parse new_parser (join ''\<newline>'' (scenario_a @ [''- Priority: high''])) = Inl ValueError
   \<and> generate_issues accepting_host (join ''\<newline>'' (scenario_a @ [''- Priority: high''])) ''bd'' False
       = Inl ValueError"
proof -
  have h1: "orphan_item \<in> set (line_items orphan_feature 1) \<and> header_num (orphan_feature ! 1) = None \<and>
    nearest_header (take 1 orphan_feature) = None"
    by code_simp
  have "\<forall>l\<in>set (split_chr CHR 0x0A (join ''\<newline>'' orphan_feature)). \<not> startswith ''- Priority:'' (strip l)"
    by code_simp
  then have h2: "\<forall>l\<in>set (split_chr CHR 0x0A (join ''\<newline>'' orphan_feature)).
          startswith ''- Priority:'' (strip l) \<longrightarrow> (\<exists>q. priority_value (strip l) = Inr q)"
    by blast
  have h3: "parse new_parser (join ''\<newline>'' (scenario_a @ [''- Priority: high''])) = Inl ValueError"
    by code_simp
  from item_before_group [of orphan_item orphan_feature 1 "join ''\<newline>'' orphan_feature" new_parser]
  have "parent orphan_item = Some ''epic-None''"
    "\<exists>its slf'. parse new_parser (join ''\<newline>'' orphan_feature) = Inr (its, slf')"
    using h1 h2 by blast+
  moreover from item_before_group [of _ _ _ "join ''\<newline>'' (scenario_a @ [''- Priority: high''])" _
      ValueError accepting_host "''bd''" False]
  have "generate_issues accepting_host (join ''\<newline>'' (scenario_a @ [''- Priority: high''])) ''bd'' False
      = Inl ValueError"
    using h3 by blast
  ultimately show ?thesis using h1 h3 by simp
qed

text \<open>
  The claim as it was written has the parser fail on such a document, with nothing
  created.  A feature line with no group above it is parsed, and the run creates its item.
\<close>

theorem item_before_group_is_parsed:
  "parse new_parser (join ''\<newline>'' orphan_feature) = Inr ([orphan_item], \<lparr>issues = [orphan_item]\<rparr>)
   \<and> (case generate_issues accepting_host (join ''\<newline>'' orphan_feature) ''bd'' False of
        Inl e \<Rightarrow> False
      | Inr r \<Rightarrow>
          map beads_id (items r) = [Some ''bd-0'']
          \<and> events r = [Ran ''bd create Foo -t feature -p 2 --json''])"
  by code_simp

text \<open>
  C4 (as amended).  An item that comes from a line other than a group header refers to
  the nearest group header above its line: its \<^verbatim>\<open>parent\<close> is the text \<^verbatim>\<open>epic-\<close> followed
  by the number of that header, which is the key under which the first pass records the
  group.  For Scenario A the parser returns two items, the epic without a parent and the
  feature with priority 2 and the parent \<^verbatim>\<open>epic-1\<close>.
\<close>

theorem group_attachment:
  "(it \<in> set (line_items lines n) \<and> header_num (lines ! n) = None \<and>
      nearest_header (take n lines) = Some k \<longrightarrow> parent it = Some (''epic-'' @ k))
   \<and> parse new_parser (join ''\<newline>'' scenario_a) = Inr (scenario_a_items, \<lparr>issues = scenario_a_items\<rparr>)"
proof (intro conjI impI)
  assume a: "it \<in> set (line_items lines n) \<and> header_num (lines ! n) = None \<and>
      nearest_header (take n lines) = Some k"
  then obtain st where st: "loop_upto (start new_parser) (take n lines) (drop n lines) = Inr st"
    and y: "it \<in> set (yield st (lines ! n) (drop (Suc n) lines))"
    using line_items_yield [of it lines n] by blast
  have "current_epic_num st = Some k"
    using loop_upto_epic_num [OF st] a by simp
  then show "parent it = Some (''epic-'' @ k)"
    using step_nongroup_parent [OF y] a by (simp add: epic_ref_def fmt_opt_def)
next
  show "parse new_parser (join ''\<newline>'' scenario_a) = Inr (scenario_a_items, \<lparr>issues = scenario_a_items\<rparr>)"
    by (rule scenario_a_parse)
qed

theorem group_attachment_witness:
  "scenario_a_items ! 1 \<in> set (line_items scenario_a 2) \<and> header_num (scenario_a ! 2) = None \<and>
   nearest_header (take 2 scenario_a) = Some ''1'' \<and> parent (scenario_a_items ! 1) = Some ''epic-1''"
proof -
  have h: "scenario_a_items ! 1 \<in> set (line_items scenario_a 2) \<and> header_num (scenario_a ! 2) = None \<and>
   nearest_header (take 2 scenario_a) = Some ''1''"
    by code_simp
  with group_attachment [of "scenario_a_items ! 1" scenario_a 2 "''1''"] show ?thesis by simp
qed

text \<open>
  The claim as it was written gives the feature of Scenario A the group key \<^verbatim>\<open>1\<close>; the
  parser stores \<^verbatim>\<open>epic-1\<close>.
\<close>

theorem scenario_a_parent_reference:
  "parse new_parser (join ''\<newline>'' scenario_a) = Inr (scenario_a_items, \<lparr>issues = scenario_a_items\<rparr>)
   \<and> parent (scenario_a_items ! 1) = Some ''epic-1''
   \<and> parent (scenario_a_items ! 1) \<noteq> Some ''1''"
  by code_simp

text \<open>
  C5.  The description of a group is looked for from the header to the end of the
  document, not to the next group header.  A group without a description marker of its
  own takes the description of a later group: here the first epic comes out with the text
  that belongs to the second, where the claim asks for an empty description.
\<close>

theorem description_from_next_group:
  "parse new_parser (join ''\<newline>'' two_groups) =
     Inr ([Issue ''First'' ''epic'' 1 ''Only the second group is described.'' None (Some ''1''),
           Issue ''Second'' ''epic'' 1 ''Only the second group is described.'' None (Some ''2'')],
          \<lparr>issues = [Issue ''First'' ''epic'' 1 ''Only the second group is described.'' None (Some ''1''),
                     Issue ''Second'' ''epic'' 1 ''Only the second group is described.'' None (Some ''2'')]\<rparr>)"
  by code_simp


text \<open>
  C7 (as amended).  Without a priority attribute, the priority of an item is decided by the
  kind of line it comes from: a task line gives a task of priority 2, a chore line a chore
  of priority 3, a bug line a bug of priority 4, and a feature line with no
  \<^verbatim>\<open>- Priority:\<close> line in its attribute block gives priority 2, whatever kind its
  \<^verbatim>\<open>- Type:\<close> attribute names.
\<close>

theorem default_priority_by_line:
  assumes "it \<in> set (line_items lines n)"
  shows "(task_match (strip (lines ! n)) \<noteq> None \<longrightarrow> issue_type it = ''task'' \<and> priority it = 2)
       \<and> (chore_match (strip (lines ! n)) \<noteq> None \<longrightarrow> issue_type it = ''chore'' \<and> priority it = 3)
       \<and> (bug_match (strip (lines ! n)) \<noteq> None \<longrightarrow> issue_type it = ''bug'' \<and> priority it = 4)
       \<and> (feature_match (strip (lines ! n)) \<noteq> None \<and> priority_lines (drop (Suc n) lines) = []
            \<longrightarrow> priority it = 2)"
proof -
  from line_items_yield [OF assms(1)] obtain st
    where y: "it \<in> set (yield st (lines ! n) (drop (Suc n) lines))" by blast
  let ?x = "strip (lines ! n)"
  note c = yield_cases [OF y]
  have t: "task_match ?x \<noteq> None \<longrightarrow> issue_type it = ''task'' \<and> priority it = 2"
    using c task_line_only [of ?x] by auto
  have ch: "chore_match ?x \<noteq> None \<longrightarrow> issue_type it = ''chore'' \<and> priority it = 3"
    using c chore_line_only [of ?x] by auto
  have b: "bug_match ?x \<noteq> None \<longrightarrow> issue_type it = ''bug'' \<and> priority it = 4"
    using c bug_line_only [of ?x] by auto
  have f: "feature_match ?x \<noteq> None \<and> priority_lines (drop (Suc n) lines) = [] \<longrightarrow> priority it = 2"
  proof
    assume a: "feature_match ?x \<noteq> None \<and> priority_lines (drop (Suc n) lines) = []"
    then obtain ds
      where "scan_attrs (drop (Suc n) lines) 2 ''feature'' [] = Inr (priority it, issue_type it, ds)"
      using c feature_line_only [of ?x] by auto
    from scan_attrs_priority [OF this] a show "priority it = 2" by simp
  qed
  from t ch b f show ?thesis by blast
qed

theorem default_priority_by_line_witness:
  "Issue ''Write the parser'' ''task'' 2 [] (Some ''epic-1'') None \<in> set (line_items kinds_doc 2)
   \<and> task_match (strip (kinds_doc ! 2)) \<noteq> None
   \<and> Issue ''Update the notes'' ''chore'' 3 [] (Some ''epic-1'') None \<in> set (line_items kinds_doc 4)
   \<and> chore_match (strip (kinds_doc ! 4)) \<noteq> None
   \<and> Issue ''Lock contention'' ''bug'' 4 [] (Some ''epic-1'') None \<in> set (line_items kinds_doc 6)
   \<and> bug_match (strip (kinds_doc ! 6)) \<noteq> None
   \<and> Issue ''Retries'' ''feature'' 2 [] (Some ''epic-1'') None \<in> set (line_items kinds_doc 8)
   \<and> feature_match (strip (kinds_doc ! 8)) \<noteq> None \<and> priority_lines (drop (Suc 8) kinds_doc) = []"
proof -
  have h: "Issue ''Write the parser'' ''task'' 2 [] (Some ''epic-1'') None \<in> set (line_items kinds_doc 2)"
    "task_match (strip (kinds_doc ! 2)) \<noteq> None"
    "Issue ''Update the notes'' ''chore'' 3 [] (Some ''epic-1'') None \<in> set (line_items kinds_doc 4)"
    "chore_match (strip (kinds_doc ! 4)) \<noteq> None"
    "Issue ''Lock contention'' ''bug'' 4 [] (Some ''epic-1'') None \<in> set (line_items kinds_doc 6)"
    "bug_match (strip (kinds_doc ! 6)) \<noteq> None"
    "Issue ''Retries'' ''feature'' 2 [] (Some ''epic-1'') None \<in> set (line_items kinds_doc 8)"
    "feature_match (strip (kinds_doc ! 8)) \<noteq> None \<and> priority_lines (drop (Suc 8) kinds_doc) = []"
    by code_simp+
  from default_priority_by_line [OF h(1)] default_priority_by_line [OF h(3)]
    default_priority_by_line [OF h(5)] default_priority_by_line [OF h(7)] h
  show ?thesis by simp
qed

text \<open>
  The claim as it was written decides by the kind of the item.  A feature line with the
  attribute \<^verbatim>\<open>- Type: chore\<close> and no priority attribute yields a chore of priority 2.
\<close>

theorem chore_from_feature_line:
  "parse new_parser (join ''\<newline>'' (typed_feature ''chore'')) =
     Inr ([Issue ''Infra'' ''epic'' 1 [] None (Some ''1''), Issue ''Foo'' ''chore'' 2 [] (Some ''epic-1'') None],
          \<lparr>issues = [Issue ''Infra'' ''epic'' 1 [] None (Some ''1''),
                     Issue ''Foo'' ''chore'' 2 [] (Some ''epic-1'') None]\<rparr>)
   \<and> issue_type (Issue ''Foo'' ''chore'' 2 [] (Some ''epic-1'') None) = ''chore''
   \<and> priority (Issue ''Foo'' ''chore'' 2 [] (Some ''epic-1'') None) \<noteq> 3"
  by code_simp




text \<open>
  C9.  The parser is not total.  On a document whose feature has the attribute line
  \<^verbatim>\<open>- Priority: high\<close> the conversion \<^verbatim>\<open>int("high")\<close> raises \<^verbatim>\<open>ValueError\<close>, which
  nothing in \<^verbatim>\<open>parse\<close> catches: no list of items is returned.
\<close>

theorem parse_raises_on_priority_text:
  "parse new_parser
     (join ''\<newline>'' [''## Epic 1: Infra'', ''### Features'', ''#### 1.1 Retries'',
        ''- Priority: high'']) = Inl ValueError"
  by code_simp

text \<open>
  C10 (as amended).  An item of kind epic that does not come from a feature line has
  priority 1; it then comes from a group header line.  (A feature line whose
  \<^verbatim>\<open>- Type:\<close> attribute is \<^verbatim>\<open>epic\<close> yields an item of kind epic with the priority of the
  feature.)
\<close>

theorem epic_priority:
  assumes "it \<in> set (line_items lines n)" and "issue_type it = ''epic''"
    and "feature_match (strip (lines ! n)) = None"
  shows "priority it = 1 \<and> header_num (lines ! n) \<noteq> None"
proof -
  from line_items_yield [OF assms(1)] obtain st
    where y: "it \<in> set (yield st (lines ! n) (drop (Suc n) lines))" by blast
  from yield_cases [OF y] assms(2,3) show ?thesis by (auto simp: header_num_def)
qed

theorem epic_priority_witness:
  "scenario_a_items ! 0 \<in> set (line_items scenario_a 0) \<and> issue_type (scenario_a_items ! 0) = ''epic''
   \<and> feature_match (strip (scenario_a ! 0)) = None \<and> priority (scenario_a_items ! 0) = 1
   \<and> header_num (scenario_a ! 0) = Some ''1''"
proof -
  have h: "scenario_a_items ! 0 \<in> set (line_items scenario_a 0)" "issue_type (scenario_a_items ! 0) = ''epic''"
   "feature_match (strip (scenario_a ! 0)) = None"
    by code_simp+
  have k: "header_num (scenario_a ! 0) = Some ''1''" by code_simp
  from epic_priority [OF h] h k show ?thesis by simp
qed

text \<open>
  The claim as it was written holds every item of kind epic to priority 1.  A feature line
  with the attribute \<^verbatim>\<open>- Type: epic\<close> and no priority attribute yields an epic of
  priority 2.
\<close>

theorem epic_from_feature_line:
  "parse new_parser (join ''\<newline>'' (typed_feature ''epic'')) =
     Inr ([Issue ''Infra'' ''epic'' 1 [] None (Some ''1''), Issue ''Foo'' ''epic'' 2 [] (Some ''epic-1'') None],
          \<lparr>issues = [Issue ''Infra'' ''epic'' 1 [] None (Some ''1''),
                     Issue ''Foo'' ''epic'' 2 [] (Some ''epic-1'') None]\<rparr>)
   \<and> issue_type (Issue ''Foo'' ''epic'' 2 [] (Some ''epic-1'') None) = ''epic''
   \<and> priority (Issue ''Foo'' ''epic'' 2 [] (Some ''epic-1'') None) \<noteq> 1"
  by code_simp


section \<open>Properties of the three passes\<close>

text \<open>
  C2.  In the third pass, an edge whose link command fails with the text
  \<^verbatim>\<open>database is locked\<close> at each of its attempts is attempted three times, with a pause of
  500 ms and then of 1000 ms between the attempts, and is then counted as failed; the
  pass goes on with the edges that remain.  An edge whose first attempt fails without that
  text is attempted once and counted as failed.
\<close>

theorem bounded_retry:
  "(contended h log (dep_cmd bd c p) \<and>
    contended h (log @ [Ran (dep_cmd bd c p), Slept 500]) (dep_cmd bd c p) \<and>
    contended h (log @ [Ran (dep_cmd bd c p), Slept 500, Ran (dep_cmd bd c p), Slept 1000]) (dep_cmd bd c p)
    \<longrightarrow> link_all h bd ((c, p) # es) sc fc log =
          link_all h bd es sc (fc + 1)
            (log @ [Ran (dep_cmd bd c p), Slept 500, Ran (dep_cmd bd c p), Slept 1000,
                    Ran (dep_cmd bd c p)]))
   \<and> (refused h log (dep_cmd bd c p)
    \<longrightarrow> link_all h bd ((c, p) # es) sc fc log =
          link_all h bd es sc (fc + 1) (log @ [Ran (dep_cmd bd c p)]))"
  using try_link_contended [of h log "dep_cmd bd c p"]
    try_link_refused [of h log "dep_cmd bd c p" 0 "[1, 2]"]
  by simp

theorem bounded_retry_witness:
  "contended locked_host [] ''bd dep add \"bd-2\" \"bd-1\"''
   \<and> contended locked_host [Ran ''bd dep add \"bd-2\" \"bd-1\"'', Slept 500] ''bd dep add \"bd-2\" \"bd-1\"''
   \<and> contended locked_host
       [Ran ''bd dep add \"bd-2\" \"bd-1\"'', Slept 500, Ran ''bd dep add \"bd-2\" \"bd-1\"'', Slept 1000]
       ''bd dep add \"bd-2\" \"bd-1\"''
   \<and> link_all locked_host ''bd'' [(''bd-2'', ''bd-1'')] 0 0 [] =
       (0, 1, [Ran ''bd dep add \"bd-2\" \"bd-1\"'', Slept 500, Ran ''bd dep add \"bd-2\" \"bd-1\"'', Slept 1000,
               Ran ''bd dep add \"bd-2\" \"bd-1\"''])
   \<and> refused refusing_host [] ''bd dep add \"bd-2\" \"bd-1\"''
   \<and> link_all refusing_host ''bd'' [(''bd-2'', ''bd-1'')] 0 0 [] = (0, 1, [Ran ''bd dep add \"bd-2\" \"bd-1\"''])"
proof -
  have d: "dep_cmd ''bd'' ''bd-2'' ''bd-1'' = ''bd dep add \"bd-2\" \"bd-1\"''"
    by (simp add: dep_cmd_def)
  have c: "contended locked_host lg ''bd dep add \"bd-2\" \"bd-1\"''" for lg
    by (simp add: contended_def locked_host_def test_store_def)
  have r: "refused refusing_host [] ''bd dep add \"bd-2\" \"bd-1\"''"
    by (simp add: refused_def refusing_host_def test_store_def)
  from bounded_retry [of locked_host "[]" "''bd''" "''bd-2''" "''bd-1''" "[]" 0 0]
    bounded_retry [of refusing_host "[]" "''bd''" "''bd-2''" "''bd-1''" "[]" 0 0] c r
  show ?thesis by (simp add: d)
qed

text \<open>
  C3 (as amended).  Take a run whose first two passes come to their end: no command of
  theirs has an output that is JSON and no object, the one case in which
  \<^verbatim>\<open>execute_command\<close> raises (\<open>create_epics_total\<close>, \<open>create_children_total\<close>).  Let the
  store create no group that carries the key of a group \<open>g\<close> (that is \<open>g\<close> alone when no
  other header has its number): after the first pass these epics have no identifier.  Then
  the key of \<open>g\<close> is not in the lookup table; every item other than an epic whose parent is
  that key is submitted to the store in the second pass; every pending edge belongs to a
  created item whose parent is another key, one that the table resolves; and the third pass
  runs link commands for pending edges only.
\<close>

theorem phase_independence:
  assumes "create_epics h bd dry its Map.empty log0 = Inr (its1, em, log1)"
      and "create_children h bd dry em its1 [] log1 = Inr (its2, pm, log2)"
      and "link_all h bd pm 0 0 log2 = (sc, fc, log3)"
      and "g \<in> set its1" and "issue_type g = ''epic''"
      and "\<forall>g'\<in>set its1. issue_type g' = ''epic'' \<and> epic_key g' = epic_key g \<longrightarrow> beads_id g' = None"
  shows "em (epic_key g) = None
       \<and> (\<forall>c\<in>set its. issue_type c \<noteq> ''epic'' \<and> parent c = Some (epic_key g) \<longrightarrow>
            Ran (to_command c bd) \<in> set (drop (length log1) log2))
       \<and> (\<forall>(cid, pid)\<in>set pm. \<exists>c\<in>set its2. beads_id c = Some cid \<and> issue_type c \<noteq> ''epic'' \<and>
            parent c \<noteq> Some (epic_key g) \<and> resolve_parent em c = pid \<and> pid \<noteq> [])
       \<and> (\<forall>cmd. Ran cmd \<in> set (drop (length log2) log3) \<longrightarrow>
            (\<exists>(cid, pid)\<in>set pm. cmd = dep_cmd bd cid pid))"
proof (intro conjI)
  show em: "em (epic_key g) = None"
    using create_epics_key [OF assms(1), of "epic_key g"] assms(6)
    by (cases "em (epic_key g)") auto
  have dry: "\<not> dry"
    using create_epics_dry [of h bd its Map.empty log0 its1 em log1 g] assms(1,4,5,6) by auto
  have ev: "log2 = log1 @ map (\<lambda>c. Ran (to_command c bd)) (filter (\<lambda>c. issue_type c \<noteq> ''epic'') its)"
    using create_children_events [of h bd em its1 "[]" log1 its2 pm log2] assms(2) dry
      create_epics_others [OF assms(1)] by simp
  show "\<forall>c\<in>set its. issue_type c \<noteq> ''epic'' \<and> parent c = Some (epic_key g) \<longrightarrow>
            Ran (to_command c bd) \<in> set (drop (length log1) log2)"
    unfolding ev by auto
  show "\<forall>(cid, pid)\<in>set pm. \<exists>c\<in>set its2. beads_id c = Some cid \<and> issue_type c \<noteq> ''epic'' \<and>
            parent c \<noteq> Some (epic_key g) \<and> resolve_parent em c = pid \<and> pid \<noteq> []"
  proof clarify
    fix cid pid
    assume "(cid, pid) \<in> set pm"
    from create_children_edges [OF assms(2) this] obtain c
      where c: "c \<in> set its2" "issue_type c \<noteq> ''epic''" "beads_id c = Some cid"
        "resolve_parent em c = pid" "pid \<noteq> []"
      by auto
    have "parent c \<noteq> Some (epic_key g)"
      using c(4,5) em by (auto simp: resolve_parent_def split: if_splits)
    with c show "\<exists>c\<in>set its2. beads_id c = Some cid \<and> issue_type c \<noteq> ''epic'' \<and>
            parent c \<noteq> Some (epic_key g) \<and> resolve_parent em c = pid \<and> pid \<noteq> []"
      by blast
  qed
  show "\<forall>cmd. Ran cmd \<in> set (drop (length log2) log3) \<longrightarrow>
            (\<exists>(cid, pid)\<in>set pm. cmd = dep_cmd bd cid pid)"
    using link_all_events [OF assms(3)] by auto
qed

theorem phase_independence_witness:
  "\<exists>its1 em log1 its2 pm log2 sc fc log3.
     create_epics epic_refusing_host ''bd'' False scenario_a_items Map.empty [] = Inr (its1, em, log1)
     \<and> create_children epic_refusing_host ''bd'' False em its1 [] log1 = Inr (its2, pm, log2)
     \<and> link_all epic_refusing_host ''bd'' pm 0 0 log2 = (sc, fc, log3)
     \<and> scenario_a_items ! 0 \<in> set its1 \<and> issue_type (scenario_a_items ! 0) = ''epic''
     \<and> list_all (\<lambda>g'. beads_id g' = None) its1
     \<and> epic_key (scenario_a_items ! 0) = ''epic-1''
     \<and> parent (scenario_a_items ! 1) = Some ''epic-1''
     \<and> em ''epic-1'' = None
     \<and> Ran ''bd create \"user-configurable retries\" -t feature -p 2 --json'' \<in> set (drop (length log1) log2)"
proof -
  let ?h = epic_refusing_host
  let ?g = "scenario_a_items ! 0"
  have ev: "(case create_epics ?h ''bd'' False scenario_a_items Map.empty [] of
              Inl e \<Rightarrow> False
            | Inr (a, em, c) \<Rightarrow>
                a = scenario_a_items \<and>
                (case create_children ?h ''bd'' False em a [] c of Inl e \<Rightarrow> False | Inr r \<Rightarrow> True))"
    by code_simp
  then obtain its1 em log1
    where p1: "create_epics ?h ''bd'' False scenario_a_items Map.empty [] = Inr (its1, em, log1)"
      and i1: "its1 = scenario_a_items"
      and c2: "(case create_children ?h ''bd'' False em its1 [] log1 of Inl e \<Rightarrow> False | Inr r \<Rightarrow> True)"
    by (cases "create_epics ?h ''bd'' False scenario_a_items Map.empty []") auto
  from c2 obtain its2 pm log2 where p2: "create_children ?h ''bd'' False em its1 [] log1 = Inr (its2, pm, log2)"
    by (cases "create_children ?h ''bd'' False em its1 [] log1") auto
  obtain sc fc log3 where p3: "link_all ?h ''bd'' pm 0 0 log2 = (sc, fc, log3)"
    by (metis prod.exhaust)
  have n: "list_all (\<lambda>g'. beads_id g' = None) its1"
    unfolding i1 by code_simp
  have g: "?g \<in> set its1" "issue_type ?g = ''epic''"
    unfolding i1 by code_simp+
  have a: "\<forall>g'\<in>set its1. issue_type g' = ''epic'' \<and> epic_key g' = epic_key ?g \<longrightarrow> beads_id g' = None"
    using n by (simp add: list_all_iff)
  have k: "epic_key ?g = ''epic-1''" "scenario_a_items ! 1 \<in> set scenario_a_items"
    "issue_type (scenario_a_items ! 1) \<noteq> ''epic''" "parent (scenario_a_items ! 1) = Some ''epic-1''"
    "to_command (scenario_a_items ! 1) ''bd'' =
       ''bd create \"user-configurable retries\" -t feature -p 2 --json''"
    by code_simp+
  note t = phase_independence [OF p1 p2 p3 g a]
  from t have e: "em ''epic-1'' = None" by (simp add: k)
  from t have "\<forall>c\<in>set scenario_a_items. issue_type c \<noteq> ''epic'' \<and> parent c = Some ''epic-1'' \<longrightarrow>
            Ran (to_command c ''bd'') \<in> set (drop (length log1) log2)"
    unfolding k(1) by blast
  with k have r: "Ran ''bd create \"user-configurable retries\" -t feature -p 2 --json''
      \<in> set (drop (length log1) log2)"
    by metis
  from p1 p2 p3 g n k e r show ?thesis by blast
qed

text \<open>
  The claim as it was written speaks of one failed group and of every item under it.  Here
  the store rejects the first of two groups numbered 1 and creates the second: the key
  \<^verbatim>\<open>epic-1\<close> is recorded, and the feature under the failed group is linked to the second
  group.  The item of kind epic under the failed group is submitted in the first pass, before
  the second group, and not in the second pass.
\<close>

theorem failed_group_key_recorded:
  "(case generate_issues first_refusing_host (join ''\<newline>'' same_number_groups) ''bd'' False of
      Inl e \<Rightarrow> False
    | Inr r \<Rightarrow>
        map (\<lambda>it. (title it, issue_type it, parent it, beads_id it)) (items r) =
          [(''First'', ''epic'', None, None),
           (''Foo'', ''epic'', Some ''epic-1'', Some ''bd-1''),
           (''Bar'', ''feature'', Some ''epic-1'', Some ''bd-3''),
           (''Second'', ''epic'', None, Some ''bd-2'')]
        \<and> epic_map r ''epic-1'' = Some ''bd-2''
        \<and> parent_map r = [(''bd-3'', ''bd-2'')]
        \<and> success_count r = 1
        \<and> events r =
          [Ran ''bd create First -t epic -p 1 --json'',
           Ran ''bd create Foo -t epic -p 2 --json'',
           Ran ''bd create Second -t epic -p 1 --json'',
           Ran ''bd create Bar -t feature -p 2 --json'',
           Ran ''bd dep add \"bd-3\" \"bd-2\"'', Slept 50])"
  by code_simp

end
